theory Spec2Isabelle
  imports Complex_Main "HOL-Library.Word"
begin

section \<open>The crank widget: data\<close>

text \<open>
  The widget is one closure over a handful of module-level variables; the model collects
  them in one record that every handler takes and returns. What the host gives the code
  (pointer coordinates, layout boxes, the outcome of \<open>audio.play()\<close>, the analyser's bytes,
  \<open>Math.random()\<close>) is an argument of the handler that reads it.
\<close>

subsection \<open>Numbers\<close>

text \<open>
  A JavaScript Number is a binary64 floating-point number. The model keeps the value of a
  Number as a \<^typ>\<open>real\<close> and rounds where the script rounds: \<open>dbl x\<close> is the binary64
  number nearest to \<open>x\<close>, a tie going to the even significand, on the grid of the normal
  numbers (53 significant bits) and, below \<open>2 ^ (-1022)\<close>, on the grid of the subnormal
  ones (multiples of \<open>2 ^ (-1074)\<close>). A decimal literal of the script is the rounded
  literal, \<open>dbl 0.95\<close> for \<open>0.95\<close>, and every sum, difference, product and quotient the
  script computes on its variables is the rounded one. Where binary64 is exact anyway (the
  literals \<open>0.5\<close>, \<open>1.5\<close> and the small integers, half of a byte) no \<open>dbl\<close> is written.
  Overflow to \<open>Infinity\<close> is not modelled; no variable of the script comes near
  \<open>2 ^ 1024\<close>. The one place where the source tests for NaN (the duration of the audio
  element) is a \<^typ>\<open>real option\<close> with \<open>None\<close> for NaN (and for the infinite duration of a
  stream, where the progress is \<open>0\<close> as well).

  The angle of the pointer is the exception. \<open>Math.atan2\<close> is an implementation-approximated
  function, so the model takes the mathematical angle for it and, with it, the real \<open>\<pi>\<close>
  for \<open>Math.PI\<close>: \<open>getAngle\<close>, the difference of two angles and its normalisation against
  \<open>\<pi>\<close> are computed exactly, as is the angle of the CSS transform. Rounding starts where
  the normalised difference enters the state of the script, in \<open>currentAngle += delta\<close> and
  \<open>velocity = delta * 5\<close>.
\<close>

text \<open>The integer nearest to \<open>y\<close>, a tie going to the even one.\<close>

definition roundEven :: "real \<Rightarrow> int" where
  "roundEven y =
     (let f = \<lfloor>y\<rfloor>; r = y - of_int f
      in if r < 1 / 2 then f else if 1 / 2 < r then f + 1 else if even f then f else f + 1)"

text \<open>The exponent of the unit in the last place of the binary64 numbers around \<open>x\<close>.\<close>

definition ulpExp :: "real \<Rightarrow> int" where
  "ulpExp x = max (- 1074) (\<lfloor>log 2 \<bar>x\<bar>\<rfloor> - 52)"

definition dbl :: "real \<Rightarrow> real" where
  "dbl x =
     (if x = 0 then 0
      else of_int (roundEven (x / 2 powr of_int (ulpExp x))) * 2 powr of_int (ulpExp x))"

text \<open>The smallest normal number, \<open>2 ^ (-1022)\<close>.\<close>

definition minNormal :: real where
  "minNormal = 2 powr of_int (- 1022)"

subsection \<open>The state\<close>

datatype js_error = TypeError | NotAllowedError

text \<open>The part of the audio element the script reads and writes.\<close>

record audio_element =
  paused :: bool
  playbackRate :: real
  volume :: real
  currentTime :: real
  duration :: "real option"

datatype transport_call = Play | Pause

text \<open>One \<open>ctx.fillRect(x, y, w, h)\<close>.\<close>

record fill_rect =
  rect_x :: real
  rect_y :: real
  rect_w :: real
  rect_h :: real

text \<open>What \<open>getBoundingClientRect()\<close> returns for the crank container.\<close>

record dom_rect =
  box_left :: real
  box_top :: real
  box_width :: real
  box_height :: real

text \<open>
  A mouse event carries \<open>clientX\<close>, \<open>clientY\<close>; a touch event carries the list
  \<open>touches\<close>, which has at least one entry on \<open>touchstart\<close> and \<open>touchmove\<close>, the two
  touch events whose coordinates the script reads.
\<close>

datatype pointer_event =
  MouseEvent real real
| TouchEvent "real \<times> real" "(real \<times> real) list"

text \<open>
  The three ways the \<open>try\<close> block of \<open>setupAudio\<close> can end: with the analyser connected,
  with an exception before \<open>analyser\<close> is assigned, or with one after.
\<close>

datatype setup_outcome = SetupOk | FailBeforeAnalyser | FailAfterAnalyser

record state =
  isDragging :: bool
  currentAngle :: real
  lastMouseAngle :: real
  velocity :: real
  lastTime :: real
  isAudioSetup :: bool
  analyser :: bool
  isLocalFile :: bool
  audio :: audio_element
  audioCalls :: "transport_call list"
  canvas_width :: nat
  canvas_height :: nat
  fillStyle :: "(real \<times> string) list"
  fills :: "fill_rect list"
  waveSeed :: "nat \<Rightarrow> real"
  photos :: "bool list"
  currentPhotoIndex :: nat
  spinnerDeg :: real
  frameRequests :: nat

text \<open>
  \<open>analyser\<close> says whether the variable holds an AnalyserNode; \<open>audioCalls\<close> is the
  history of calls to \<open>audio.play()\<close> and \<open>audio.pause()\<close>; \<open>fillStyle\<close> is the list of
  colour stops of the gradient; \<open>fills\<close> is what has been drawn since the last
  \<open>clearRect\<close>; \<open>waveSeed i\<close> is the \<open>i\<close>-th \<open>Math.random()\<close> drawn when the static
  waveform was built; \<open>photos\<close> holds, for each \<open>.photo\<close> element, whether its class list
  contains \<open>active\<close>; \<open>spinnerDeg\<close> is the angle of the \<open>rotate(...)\<close> transform of the
  spinner; \<open>frameRequests\<close> counts the calls to \<open>requestAnimationFrame(loop)\<close>.
\<close>

text \<open>What one run of the frame callback reads from the host.\<close>

record frame_env =
  now :: real
  playAllowed :: bool
  freqData :: "8 word list"
  random :: "nat \<Rightarrow> real"

definition FRICTION :: real where
  "FRICTION = dbl 0.95"

definition bufferLength :: nat where
  "bufferLength = 32"

section \<open>Input handlers\<close>

text \<open>
  \<open>Math.atan2(y, x)\<close>: the angle of the point \<open>(x, y)\<close>, in \<open>(-\<pi>, \<pi>]\<close>, not rounded.
\<close>

definition atan2 :: "real \<Rightarrow> real \<Rightarrow> real" where
  "atan2 y x =
     (if 0 < x then arctan (y / x)
      else if x < 0 then (if 0 \<le> y then arctan (y / x) + pi else arctan (y / x) - pi)
      else if 0 < y then pi / 2
      else if y < 0 then - (pi / 2)
      else 0)"

definition getAngle :: "dom_rect \<Rightarrow> real \<Rightarrow> real \<Rightarrow> real" where
  "getAngle rect x y =
     (let centerX = box_left rect + box_width rect / 2;
          centerY = box_top rect + box_height rect / 2
      in atan2 (y - centerY) (x - centerX))"

fun clientX :: "pointer_event \<Rightarrow> real" where
  "clientX (MouseEvent x y) = x"
| "clientX (TouchEvent t ts) = fst t"

fun clientY :: "pointer_event \<Rightarrow> real" where
  "clientY (MouseEvent x y) = y"
| "clientY (TouchEvent t ts) = snd t"

definition updateCrankVisual :: "state \<Rightarrow> state" where
  "updateCrankVisual s = s\<lparr>spinnerDeg := currentAngle s * (180 / pi)\<rparr>"

definition setupAudio :: "setup_outcome \<Rightarrow> state \<Rightarrow> state" where
  "setupAudio outcome s =
     (if isAudioSetup s then s
      else if isLocalFile s then s\<lparr>isAudioSetup := True\<rparr>
      else (case outcome of
              SetupOk \<Rightarrow> s\<lparr>analyser := True, isAudioSetup := True\<rparr>
            | FailBeforeAnalyser \<Rightarrow> s\<lparr>isAudioSetup := True\<rparr>
            | FailAfterAnalyser \<Rightarrow> s\<lparr>analyser := True, isAudioSetup := True\<rparr>))"

definition startDrag :: "dom_rect \<Rightarrow> setup_outcome \<Rightarrow> pointer_event \<Rightarrow> state \<Rightarrow> state" where
  "startDrag rect outcome e s =
     setupAudio outcome
       (s\<lparr>isDragging := True, lastMouseAngle := getAngle rect (clientX e) (clientY e)\<rparr>)"

text \<open>
  The two statements that bring the raw difference of angles back towards zero
  (\<open>if (delta > Math.PI) delta -= Math.PI * 2; if (delta < -Math.PI) delta += Math.PI * 2\<close>).
\<close>

definition wrapDelta :: "real \<Rightarrow> real" where
  "wrapDelta delta0 =
     (let delta1 = (if delta0 > pi then delta0 - pi * 2 else delta0);
          delta2 = (if delta1 < - pi then delta1 + pi * 2 else delta1)
      in delta2)"

text \<open>
  The body of \<open>moveDrag\<close> from the point where \<open>angle\<close> is known. The sum and the product
  that go into the state are rounded.
\<close>

definition dragTo :: "real \<Rightarrow> state \<Rightarrow> state" where
  "dragTo angle s =
     (let delta = wrapDelta (angle - lastMouseAngle s)
      in updateCrankVisual
           (s\<lparr>currentAngle := dbl (currentAngle s + delta),
              velocity := dbl (delta * 5),
              lastMouseAngle := angle\<rparr>))"

definition moveDrag :: "dom_rect \<Rightarrow> pointer_event \<Rightarrow> state \<Rightarrow> state" where
  "moveDrag rect e s =
     (if \<not> isDragging s then s
      else dragTo (getAngle rect (clientX e) (clientY e)) s)"

definition endDrag :: "state \<Rightarrow> state" where
  "endDrag s = s\<lparr>isDragging := False\<rparr>"

definition resizeCanvas :: "nat \<Rightarrow> nat \<Rightarrow> state \<Rightarrow> state" where
  "resizeCanvas offsetWidth offsetHeight s =
     s\<lparr>canvas_width := offsetWidth, canvas_height := offsetHeight\<rparr>"

section \<open>The frame callback\<close>

subsection \<open>Rotation\<close>

text \<open>
  The first half of \<open>loop\<close>: friction while the crank is free, then the cut-off of small
  velocities, which is outside the \<open>if (!isDragging)\<close>.
\<close>

definition applyFriction :: "state \<Rightarrow> state" where
  "applyFriction s =
     (if \<not> isDragging s then
        (let s1 = s\<lparr>velocity := dbl (velocity s * FRICTION)\<rparr>;
             s2 = s1\<lparr>currentAngle := dbl (currentAngle s1 + velocity s1)\<rparr>
         in updateCrankVisual s2)
      else s)"

definition cutOff :: "state \<Rightarrow> state" where
  "cutOff s = (if \<bar>velocity s\<bar> < dbl 0.001 then s\<lparr>velocity := 0\<rparr> else s)"

definition physics :: "state \<Rightarrow> state" where
  "physics s = cutOff (applyFriction s)"

subsection \<open>Audio\<close>

text \<open>
  \<open>audio.play()\<close> returns a promise; where playback is not allowed yet the promise is
  rejected and the element stays paused. \<open>audio.pause()\<close> cannot fail.
\<close>

definition audio_play :: "bool \<Rightarrow> audio_element \<Rightarrow> js_error + audio_element" where
  "audio_play allowed a = (if allowed then Inr (a\<lparr>paused := False\<rparr>) else Inl NotAllowedError)"

definition audio_pause :: "audio_element \<Rightarrow> audio_element" where
  "audio_pause a = a\<lparr>paused := True\<rparr>"

text \<open>
  The audio logic of \<open>loop\<close>, with the calls it makes on the element. The \<open>Inl\<close> branch
  is the handler \<open>p.catch(e => { })\<close>.
\<close>

definition audioLogic ::
  "bool \<Rightarrow> real \<Rightarrow> audio_element \<Rightarrow> transport_call list \<times> audio_element" where
  "audioLogic allowed speed a =
     (if speed > dbl 0.02 then
        (let (calls, a1) =
               (if paused a then
                  ([Play], case audio_play allowed a of Inl e \<Rightarrow> a | Inr a' \<Rightarrow> a')
                else ([], a));
             rate0 = dbl (0.5 + dbl (speed * 3));
             rate1 = (if rate0 > 1.5 then 1.5 else rate0);
             rate2 = (if rate1 < dbl 0.8 then dbl 0.8 else rate1)
         in (calls, a1\<lparr>playbackRate := rate2, volume := min 1 (dbl (speed * 5))\<rparr>))
      else if \<not> paused a then ([Pause], audio_pause a)
      else ([], a))"

subsection \<open>Slideshow\<close>

text \<open>
  The index \<open>updatePhotos\<close> computes for \<open>n\<close> photos: the floor of the rounded product,
  then \<open>if (index >= photos.length) index = photos.length - 1; if (index < 0) index = 0;\<close>
\<close>

definition photoIndex :: "real \<Rightarrow> nat \<Rightarrow> int" where
  "photoIndex progress n =
     (let index0 = \<lfloor>dbl (progress * real n)\<rfloor>;
          index1 = (if index0 \<ge> int n then int n - 1 else index0);
          index2 = (if index1 < 0 then 0 else index1)
      in index2)"

text \<open>
  \<open>photos[currentPhotoIndex]\<close> is \<open>undefined\<close> when the index is not one of the list, and
  reading \<open>.classList\<close> of it throws.
\<close>

definition updatePhotos :: "real \<Rightarrow> state \<Rightarrow> js_error + state" where
  "updatePhotos progress s =
     (if length (photos s) = 0 then Inr s
      else
        (let index = photoIndex progress (length (photos s))
         in if index \<noteq> int (currentPhotoIndex s) then
              (if currentPhotoIndex s < length (photos s) then
                 Inr (s\<lparr>photos := (photos s)[currentPhotoIndex s := False, nat index := True],
                        currentPhotoIndex := nat index\<rparr>)
               else Inl TypeError)
            else Inr s))"

subsection \<open>Visualizer\<close>

text \<open>
  \<open>new Array(bufferLength).fill(0).map(() => Math.random() * 50 + 10)\<close>
\<close>

definition pseudoWaveform :: "(nat \<Rightarrow> real) \<Rightarrow> real list" where
  "pseudoWaveform seed = map (\<lambda>i. dbl (dbl (seed i * 50) + 10)) [0..<bufferLength]"

text \<open>
  \<open>progress\<close> in \<open>drawVisualizer\<close>: \<open>0\<close> unless
  \<open>audio.duration > 0 && !isNaN(audio.duration)\<close>.
\<close>

definition progressOf :: "audio_element \<Rightarrow> real" where
  "progressOf a =
     (case duration a of
        None \<Rightarrow> 0
      | Some d \<Rightarrow> if d > 0 then dbl (currentTime a / d) else 0)"

text \<open>
  The height of bar \<open>i\<close> before the two bounds are applied. Reading a typed array past its
  end gives \<open>undefined\<close>, and half of that is NaN: \<open>None\<close>.
\<close>

definition rawBarHeight :: "state \<Rightarrow> frame_env \<Rightarrow> real \<Rightarrow> nat \<Rightarrow> real option" where
  "rawBarHeight s e speed i =
     (let barHeight = pseudoWaveform (waveSeed s) ! i
      in if analyser s \<and> \<not> isLocalFile s then
           (let dataArray = freqData e;
                index = nat \<lfloor>dbl (real i * dbl (real (length dataArray) / real bufferLength))\<rfloor>;
                realHeight =
                  (if index < length dataArray then Some (real (unat (dataArray ! index)) / 2)
                   else None)
            in if speed > dbl 0.01 then realHeight else Some barHeight)
         else if speed > dbl 0.02 then
           Some (dbl (barHeight + dbl (dbl (random e i - 0.5) * dbl (speed * 50))))
         else Some barHeight)"

text \<open>\<open>if (barHeight < 4) barHeight = 4; if (barHeight > canvas.height) barHeight = canvas.height;\<close>\<close>

definition boundBar :: "nat \<Rightarrow> real \<Rightarrow> real" where
  "boundBar h barHeight0 =
     (let barHeight1 = (if barHeight0 < 4 then 4 else barHeight0);
          barHeight2 = (if barHeight1 > real h then real h else barHeight1)
      in barHeight2)"

text \<open>
  The \<open>for\<close> loop over the bars, from the bar \<open>i\<close> on with the pen at \<open>x\<close>. A
  \<open>fillRect\<close> with a NaN argument draws nothing; the pen moves on all the same.
\<close>

fun drawBars :: "state \<Rightarrow> frame_env \<Rightarrow> real \<Rightarrow> real \<Rightarrow> nat list \<Rightarrow> real \<Rightarrow> fill_rect list" where
  "drawBars s e speed barWidth [] x = []"
| "drawBars s e speed barWidth (i # is) x =
     (case rawBarHeight s e speed i of
        None \<Rightarrow> []
      | Some b \<Rightarrow>
          (let barHeight = boundBar (canvas_height s) b
           in [\<lparr>rect_x = x, rect_y = dbl (real (canvas_height s) - barHeight),
                 rect_w = barWidth, rect_h = barHeight\<rparr>]))
     @ drawBars s e speed barWidth is (dbl (x + dbl (barWidth + 1)))"

text \<open>All the bars of one frame: \<open>for (let i = 0; i < bufferLength; i++)\<close> with \<open>x = 0\<close>.\<close>

definition visualizerBars :: "frame_env \<Rightarrow> real \<Rightarrow> state \<Rightarrow> fill_rect list" where
  "visualizerBars e speed s =
     (let barWidth = dbl (dbl (real (canvas_width s) / real bufferLength) - 1)
      in drawBars s e speed barWidth [0..<bufferLength] 0)"

text \<open>The four \<open>addColorStop\<close> calls on the gradient that becomes the fill style.\<close>

definition gradientStops :: "real \<Rightarrow> (real \<times> string) list" where
  "gradientStops progress =
     (let stopPoint = max 0 (min 1 progress)
      in [(0, ''#db2777''), (stopPoint, ''#db2777''),
          (min 1 (dbl (stopPoint + dbl 0.001)), ''#e5e7eb''), (1, ''#e5e7eb'')])"

definition drawVisualizer :: "frame_env \<Rightarrow> real \<Rightarrow> state \<Rightarrow> js_error + state" where
  "drawVisualizer e speed s =
     (let progress = progressOf (audio s);
          s1 = s\<lparr>fillStyle := gradientStops progress, fills := visualizerBars e speed s\<rparr>
      in updatePhotos progress s1)"

subsection \<open>The callback\<close>

text \<open>
  \<open>loop\<close> up to the call of \<open>drawVisualizer\<close>: the time stamp, the rotation, the audio
  logic at \<open>speed = Math.abs(velocity)\<close>.
\<close>

definition turnAndPlay :: "frame_env \<Rightarrow> state \<Rightarrow> state" where
  "turnAndPlay e s =
     (let s1 = physics (s\<lparr>lastTime := now e\<rparr>);
          speed = \<bar>velocity s1\<bar>;
          (calls, a) = audioLogic (playAllowed e) speed (audio s1)
      in s1\<lparr>audio := a, audioCalls := audioCalls s1 @ calls\<rparr>)"

text \<open>
  The whole callback. An exception leaves it before \<open>requestAnimationFrame(loop)\<close>, its
  last statement.
\<close>

definition loop :: "frame_env \<Rightarrow> state \<Rightarrow> js_error + state" where
  "loop e s =
     (let s2 = turnAndPlay e s;
          speed = \<bar>velocity s2\<bar>
      in case drawVisualizer e speed s2 of
           Inl err \<Rightarrow> Inl err
         | Inr s3 \<Rightarrow> Inr (s3\<lparr>frameRequests := frameRequests s3 + 1\<rparr>))"

subsection \<open>The earlier script\<close>

text \<open>
  \<open>voice-note-app/script.js\<close> is the earlier version of the same widget. Its \<open>moveDrag\<close>,
  \<open>endDrag\<close> and its \<open>loop\<close> up to the call of the visualizer are the statements modelled
  above, word for word; its visualizer draws the analyser's bytes only, without bounds,
  and it has no slideshow. \<open>analyser.frequencyBinCount\<close> throws when \<open>analyser\<close> is still
  undefined; the \<open>setupAudio\<close> of that script sets \<open>isAudioSetup\<close> only after it has
  assigned \<open>analyser\<close>. Its \<open>startDrag\<close> and \<open>setupAudio\<close> are not modelled.
\<close>

fun drawBars_vn :: "nat \<Rightarrow> real \<Rightarrow> 8 word list \<Rightarrow> real \<Rightarrow> fill_rect list" where
  "drawBars_vn h barWidth [] x = []"
| "drawBars_vn h barWidth (b # bs) x =
     (let barHeight = real (unat b) / 2
      in \<lparr>rect_x = x, rect_y = dbl (real h - barHeight), rect_w = barWidth, rect_h = barHeight\<rparr>
         # drawBars_vn h barWidth bs (dbl (x + dbl (barWidth + 1))))"

definition drawVisualizer_vn :: "frame_env \<Rightarrow> state \<Rightarrow> js_error + state" where
  "drawVisualizer_vn e s =
     (if \<not> isAudioSetup s then Inr s
      else if \<not> analyser s then Inl TypeError
      else
        (let dataArray = freqData e;
             progress = progressOf (audio s);
             barWidth = dbl (dbl (real (canvas_width s) / real (length dataArray)) * 2.5)
         in Inr (s\<lparr>fillStyle := gradientStops progress,
                    fills := drawBars_vn (canvas_height s) barWidth dataArray 0\<rparr>)))"

definition loop_vn :: "frame_env \<Rightarrow> state \<Rightarrow> js_error + state" where
  "loop_vn e s =
     (let s2 = turnAndPlay e s
      in case drawVisualizer_vn e s2 of
           Inl err \<Rightarrow> Inl err
         | Inr s3 \<Rightarrow> Inr (s3\<lparr>frameRequests := frameRequests s3 + 1\<rparr>))"

subsection \<open>Runs\<close>

text \<open>
  A run of frames of either script with nothing else in between; it stops at the first
  exception, as the callback is then not requested again.
\<close>

fun frames ::
  "(frame_env \<Rightarrow> state \<Rightarrow> js_error + state) \<Rightarrow> frame_env list \<Rightarrow> state \<Rightarrow> js_error + state" where
  "frames step [] s = Inr s"
| "frames step (e # es) s =
     (case step e s of Inl err \<Rightarrow> Inl err | Inr s' \<Rightarrow> frames step es s')"

text \<open>
  The variables as the script initialises them. What the page and the host decide (the
  protocol of the location, the random numbers of the static waveform, the size of the
  canvas, the markup of the photos, the audio element) are the arguments.
\<close>

definition initialState ::
  "bool \<Rightarrow> (nat \<Rightarrow> real) \<Rightarrow> nat \<Rightarrow> nat \<Rightarrow> bool list \<Rightarrow> audio_element \<Rightarrow> state" where
  "initialState localFile seed offsetWidth offsetHeight photoFlags audioEl =
     \<lparr>isDragging = False, currentAngle = 0, lastMouseAngle = 0, velocity = 0, lastTime = 0,
      isAudioSetup = False, analyser = False, isLocalFile = localFile, audio = audioEl,
      audioCalls = [], canvas_width = offsetWidth, canvas_height = offsetHeight,
      fillStyle = [], fills = [], waveSeed = seed, photos = photoFlags,
      currentPhotoIndex = 0, spinnerDeg = 0, frameRequests = 1\<rparr>"

section \<open>Notions of the specification\<close>

text \<open>\<open>clamp(x, lo, hi)\<close> as the specification writes it.\<close>

definition clamp :: "real \<Rightarrow> real \<Rightarrow> real \<Rightarrow> real" where
  "clamp x lo hi = max lo (min hi x)"

definition clampIndex :: "int \<Rightarrow> int \<Rightarrow> int \<Rightarrow> int" where
  "clampIndex k lo hi = max lo (min hi k)"

text \<open>Exactly one photo is active, and it is photo \<open>i\<close>.\<close>

definition oneActiveAt :: "nat \<Rightarrow> bool list \<Rightarrow> bool" where
  "oneActiveAt i ps = (i < length ps \<and> ps = (replicate (length ps) False)[i := True])"

text \<open>The stored index names a photo, or there is none to name.\<close>

definition indexInRange :: "state \<Rightarrow> bool" where
  "indexInRange s = (photos s = [] \<or> currentPhotoIndex s < length (photos s))"

text \<open>Once the audio is set up in the earlier script, the analyser exists.\<close>

definition analyserReady :: "state \<Rightarrow> bool" where
  "analyserReady s = (if isAudioSetup s then analyser s else True)"

text \<open>
  What the controller asks of the transport in a frame: what the last call of the frame
  asks for, or, with no call, to stay as it is.
\<close>

definition intendedPlaying :: "audio_element \<Rightarrow> transport_call list \<Rightarrow> bool" where
  "intendedPlaying a calls = (if calls = [] then \<not> paused a else last calls = Play)"

text \<open>
  \<open>step\<close> is the frame callback of one of the two scripts, in a state where it does not
  throw.
\<close>

definition runs :: "(frame_env \<Rightarrow> state \<Rightarrow> js_error + state) \<Rightarrow> state \<Rightarrow> bool" where
  "runs step s = (step = loop \<and> indexInRange s \<or> step = loop_vn \<and> analyserReady s)"

text \<open>
  The velocity one frame after \<open>v\<close>, for a crank left alone; \<open>n\<close> frames after, it is
  \<open>(decayed ^^ n) v\<close>.
\<close>

definition decayed :: "real \<Rightarrow> real" where
  "decayed v = (if \<bar>dbl (v * FRICTION)\<bar> < dbl 0.001 then 0 else dbl (v * FRICTION))"

text \<open>
  Inputs for the examples: an audio element as the page creates it (paused, nothing loaded
  yet), and a \<open>Math.random\<close> that draws the same number every time.
\<close>

definition freshAudio :: audio_element where
  "freshAudio = \<lparr>paused = True, playbackRate = 1, volume = 1, currentTime = 0, duration = None\<rparr>"

definition constantDraws :: "real \<Rightarrow> nat \<Rightarrow> real" where
  "constantDraws r i = r"

text \<open>
  A page with four photos, the first one active, served over http; a crank container
  whose centre is at \<open>(1, 1)\<close>; a frame in which the analyser reports silence.
\<close>

definition examplePage :: state where
  "examplePage = initialState False (constantDraws 0.5) 320 64 [True, False, False, False] freshAudio"

definition exampleBox :: dom_rect where
  "exampleBox = \<lparr>box_left = 0, box_top = 0, box_width = 2, box_height = 2\<rparr>"

definition exampleFrame :: "bool \<Rightarrow> frame_env" where
  "exampleFrame allowed =
     \<lparr>now = 16, playAllowed = allowed, freqData = replicate 32 0, random = constantDraws 0.5\<rparr>"

text \<open>The crank pressed straight right of its centre, at angle \<open>0\<close>.\<close>

definition pressed :: state where
  "pressed = startDrag exampleBox SetupOk (MouseEvent 2 1) examplePage"


section \<open>Binary64 rounding\<close>

lemma dbl_zero [simp]: "dbl 0 = 0"
  by (simp add: dbl_def)

lemma roundEven_error: "\<bar>of_int (roundEven y) - y\<bar> \<le> 1 / 2"
proof -
  have "of_int \<lfloor>y\<rfloor> \<le> y" "y < of_int \<lfloor>y\<rfloor> + 1" by linarith+
  then show ?thesis
    by (auto simp: roundEven_def Let_def)
qed

lemma roundEven_of_int [simp]: "roundEven (of_int k) = k"
  by (simp add: roundEven_def)

lemma roundEven_nonneg: "0 \<le> y \<Longrightarrow> 0 \<le> roundEven y"
  by (auto simp: roundEven_def Let_def)

lemma pow2_int: "(2::real) powr of_int (- int m) = 1 / 2 ^ m"
  by (simp add: powr_minus powr_realpow inverse_eq_divide)

lemma ulpExp_normal:
  assumes "m \<le> 1074" "2 ^ 52 \<le> \<bar>x\<bar> * 2 ^ m" "\<bar>x\<bar> * 2 ^ m < 2 ^ 53"
  shows "ulpExp x = - int m"
proof -
  have pos: "0 < \<bar>x\<bar>" using assms(2) by (cases "x = 0") auto
  have lo: "(2::real) powr of_int (52 - int m) \<le> \<bar>x\<bar>"
  proof -
    have "(2::real) powr of_int (52 - int m) = 2 powr 52 / 2 powr (real m)"
      by (simp add: powr_diff)
    also have "\<dots> = 2 ^ 52 / 2 ^ m"
      by (simp add: powr_realpow)
    also have "\<dots> \<le> \<bar>x\<bar>" using assms(2) by (simp add: field_simps)
    finally show ?thesis .
  qed
  have hi: "\<bar>x\<bar> < (2::real) powr of_int (52 - int m + 1)"
  proof -
    have "\<bar>x\<bar> < 2 ^ 53 / 2 ^ m" using assms(3) by (simp add: field_simps)
    also have "\<dots> = (2::real) powr 53 / 2 powr (real m)"
      by (simp add: powr_realpow)
    also have "\<dots> = (2::real) powr of_int (52 - int m + 1)"
      by (simp add: powr_diff)
    finally show ?thesis .
  qed
  have "\<lfloor>log 2 \<bar>x\<bar>\<rfloor> = 52 - int m"
    using pos lo hi by (subst floor_log_eq_powr_iff) simp_all
  then show ?thesis using assms(1) by (simp add: ulpExp_def)
qed

lemma dbl_eval:
  assumes "m \<le> 1074" "2 ^ 52 \<le> \<bar>x\<bar> * 2 ^ m" "\<bar>x\<bar> * 2 ^ m < 2 ^ 53"
  shows "dbl x = of_int (roundEven (x * 2 ^ m)) / 2 ^ m"
proof -
  have "x \<noteq> 0" using assms(2) by auto
  then show ?thesis
    unfolding dbl_def ulpExp_normal [OF assms] pow2_int by simp
qed

lemma minNormal_pos: "0 < minNormal"
  by (simp add: minNormal_def)

lemma minNormal_small: "minNormal < 1 / 2 ^ 64"
proof -
  have "(2::real) powr of_int (- 1022) < 2 powr of_int (- 64)"
    by (intro powr_less_mono) simp_all
  also have "\<dots> = 1 / 2 ^ 64"
    using pow2_int [of 64] by simp
  finally show ?thesis by (simp only: minNormal_def)
qed

lemma ulpExp_cases:
  assumes "x \<noteq> 0"
  shows "(minNormal \<le> \<bar>x\<bar> \<and> 2 powr of_int (ulpExp x) \<le> \<bar>x\<bar> / 2 ^ 52)
       \<or> (\<bar>x\<bar> < minNormal \<and> ulpExp x = - 1074)"
proof (cases "minNormal \<le> \<bar>x\<bar>")
  case True
  have pos: "0 < \<bar>x\<bar>" using assms by simp
  have "(2::real) powr of_int (- 1022) \<le> \<bar>x\<bar>"
    using True by (simp only: minNormal_def)
  then have l: "of_int (- 1022) \<le> log 2 \<bar>x\<bar>"
    using pos by (subst le_log_iff) simp_all
  define a where "a = \<lfloor>log 2 \<bar>x\<bar>\<rfloor>"
  have f: "- 1022 \<le> a"
    unfolding a_def using l by (simp only: le_floor_iff)
  have u: "ulpExp x = a - 52"
    using f unfolding ulpExp_def a_def [symmetric] by linarith
  have "(2::real) powr of_int a \<le> 2 powr log 2 \<bar>x\<bar>"
    unfolding a_def by (intro powr_mono) simp_all
  also have "\<dots> = \<bar>x\<bar>" using pos by simp
  finally have "(2::real) powr of_int a \<le> \<bar>x\<bar>" .
  moreover have "(2::real) powr of_int (ulpExp x) = 2 powr of_int a / 2 ^ 52"
    unfolding u by (simp add: powr_diff)
  ultimately show ?thesis using True by (simp add: divide_right_mono)
next
  case False
  have pos: "0 < \<bar>x\<bar>" using assms by simp
  have "\<bar>x\<bar> < (2::real) powr of_int (- 1022)"
    using False by (simp only: minNormal_def not_le)
  then have l: "log 2 \<bar>x\<bar> < of_int (- 1022)"
    using pos by (subst log_less_iff) simp_all
  define a where "a = \<lfloor>log 2 \<bar>x\<bar>\<rfloor>"
  have "a < - 1022"
    unfolding a_def using l by (simp only: floor_less_iff)
  then have "ulpExp x = - 1074"
    unfolding ulpExp_def a_def [symmetric] by linarith
  then show ?thesis using False by simp
qed

lemma dbl_error:
  assumes "x \<noteq> 0"
  shows "\<bar>dbl x - x\<bar> \<le> 2 powr of_int (ulpExp x) / 2"
proof -
  define u where "u = (2::real) powr of_int (ulpExp x)"
  have u: "0 < u" by (simp add: u_def)
  have "dbl x - x = (of_int (roundEven (x / u)) - x / u) * u"
    using assms u by (simp add: dbl_def u_def algebra_simps)
  then have "\<bar>dbl x - x\<bar> = \<bar>of_int (roundEven (x / u)) - x / u\<bar> * u"
    using u by (simp add: abs_mult)
  also have "\<dots> \<le> 1 / 2 * u"
    using u roundEven_error [of "x / u"] by (intro mult_right_mono) simp_all
  finally show ?thesis by (simp add: u_def)
qed

text \<open>The relative error of a result in the normal range, the absolute one below it.\<close>

lemma dbl_rel_error:
  assumes "minNormal \<le> \<bar>x\<bar>"
  shows "\<bar>dbl x - x\<bar> \<le> \<bar>x\<bar> / 2 ^ 53"
proof -
  have nz: "x \<noteq> 0" using assms minNormal_pos by auto
  from ulpExp_cases [OF nz] assms have "2 powr of_int (ulpExp x) \<le> \<bar>x\<bar> / 2 ^ 52" by auto
  then show ?thesis using dbl_error [OF nz] by simp
qed

lemma dbl_abs_error:
  assumes "\<bar>x\<bar> < minNormal"
  shows "\<bar>dbl x - x\<bar> \<le> minNormal"
proof (cases "x = 0")
  case True
  then show ?thesis using minNormal_pos by simp
next
  case False
  from ulpExp_cases [OF False] assms have "ulpExp x = - 1074" by auto
  then have "2 powr of_int (ulpExp x) = (2::real) powr of_int (- 1074)"
    by simp
  also have "\<dots> \<le> 2 powr of_int (- 1022)"
    by (intro powr_mono) simp_all
  finally have "2 powr of_int (ulpExp x) \<le> minNormal"
    by (simp only: minNormal_def)
  then show ?thesis
    using dbl_error [OF False] abs_ge_zero [of "dbl x - x"] by linarith
qed

lemma dbl_nonneg: "0 \<le> x \<Longrightarrow> 0 \<le> dbl x"
  by (simp add: dbl_def roundEven_nonneg)

text \<open>A number with a significand of at most 53 bits is a double: rounding keeps it.\<close>

lemma dbl_exact:
  assumes "m \<le> 1074" "\<bar>k\<bar> < 2 ^ 53"
  shows "dbl (of_int k / 2 ^ m) = of_int k / 2 ^ m"
proof (cases "k = 0")
  case True
  then show ?thesis by simp
next
  case False
  define x :: real where "x = of_int k / 2 ^ m"
  have nz: "x \<noteq> 0" using False by (simp add: x_def)
  have pos: "0 < \<bar>x\<bar>" using nz by simp
  have "\<bar>x\<bar> = of_int \<bar>k\<bar> / 2 ^ m" by (simp add: x_def abs_divide)
  also have "\<dots> < 2 ^ 53 / 2 ^ m"
    using assms(2) by (intro divide_strict_right_mono) (simp_all add: of_int_less_numeral_power_cancel_iff)
  also have "\<dots> = (2::real) powr of_int (53 - int m)"
    by (simp add: powr_diff powr_realpow)
  finally have "log 2 \<bar>x\<bar> < of_int (53 - int m)"
    using pos by (simp add: log_less_iff)
  then have "\<lfloor>log 2 \<bar>x\<bar>\<rfloor> < 53 - int m"
    by (simp add: floor_less_iff)
  then have le: "ulpExp x \<le> - int m"
    using assms(1) by (simp add: ulpExp_def)
  define j where "j = nat (- int m - ulpExp x)"
  have j: "ulpExp x = - int m - int j" using le by (simp add: j_def)
  have "(2::real) powr of_int (ulpExp x) = 1 / (2 ^ m * 2 ^ j)"
    unfolding j using pow2_int [of "m + j"] by (simp add: power_add)
  then have p: "(2::real) powr of_int (ulpExp x) = 1 / (2 ^ m * 2 ^ j)" .
  have q: "x / 2 powr of_int (ulpExp x) = of_int (k * 2 ^ j)"
    unfolding p by (simp add: x_def)
  have r: "roundEven (x / 2 powr of_int (ulpExp x)) = k * 2 ^ j"
    by (simp only: q roundEven_of_int)
  have "real_of_int (roundEven (x / 2 powr of_int (ulpExp x))) * 2 powr of_int (ulpExp x)
      = real_of_int (k * 2 ^ j) * (1 / (2 ^ m * 2 ^ j))"
    by (simp only: r) (simp only: p)
  also have "\<dots> = x"
    by (simp add: x_def)
  finally show ?thesis
    using nz unfolding x_def dbl_def by simp
qed

lemma dbl_of_int: "\<bar>k\<bar> < 2 ^ 53 \<Longrightarrow> dbl (of_int k) = of_int k"
  using dbl_exact [of 0 k] by simp

lemma dbl_bound: "\<bar>dbl x - x\<bar> \<le> \<bar>x\<bar> / 2 ^ 53 + minNormal"
proof (cases "minNormal \<le> \<bar>x\<bar>")
  case True
  then show ?thesis using dbl_rel_error [of x] minNormal_pos by simp
next
  case False
  then have "\<bar>dbl x - x\<bar> \<le> minNormal" by (intro dbl_abs_error) simp
  moreover have "0 \<le> \<bar>x\<bar> / 2 ^ 53" by simp
  ultimately show ?thesis by linarith
qed

text \<open>A result that is not tiny comes from the normal range.\<close>

lemma dbl_normal:
  assumes "1 / 2 ^ 60 \<le> \<bar>dbl x\<bar>"
  shows "\<bar>dbl x - x\<bar> \<le> \<bar>x\<bar> / 2 ^ 53"
proof (cases "minNormal \<le> \<bar>x\<bar>")
  case True
  then show ?thesis by (rule dbl_rel_error)
next
  case False
  then have "\<bar>dbl x - x\<bar> \<le> minNormal" by (intro dbl_abs_error) simp
  then have "\<bar>dbl x\<bar> < 2 * minNormal" using False by linarith
  also have "\<dots> < 2 * (1 / 2 ^ 64)" using minNormal_small by simp
  finally have "\<bar>dbl x\<bar> < 1 / 2 ^ 60" by simp
  then show ?thesis using assms by simp
qed

subsection \<open>The literals of the script\<close>

lemma FRICTION_value: "FRICTION = 4278419646001971 / 2 ^ 52"
  unfolding FRICTION_def by (subst dbl_eval [of 53]) (simp_all add: roundEven_def Let_def)

lemma dbl_thousandth: "dbl 0.001 = 1152921504606847 / 2 ^ 60" "dbl (1 / 1000) = 1152921504606847 / 2 ^ 60"
  by (subst dbl_eval [of 62], simp_all add: roundEven_def Let_def)+

lemma dbl_fiftieth: "dbl 0.02 = 5764607523034235 / 2 ^ 58" "dbl (1 / 50) = 5764607523034235 / 2 ^ 58"
  by (subst dbl_eval [of 58], simp_all add: roundEven_def Let_def)+

lemma dbl_hundredth: "dbl 0.01 = 5764607523034235 / 2 ^ 59" "dbl (1 / 100) = 5764607523034235 / 2 ^ 59"
  by (subst dbl_eval [of 59], simp_all add: roundEven_def Let_def)+

lemma dbl_four_fifths: "dbl 0.8 = 3602879701896397 / 2 ^ 52" "dbl (4 / 5) = 3602879701896397 / 2 ^ 52"
  by (subst dbl_eval [of 53], simp_all add: roundEven_def Let_def)+



lemma dbl_three_tenths: "dbl 0.3 = 5404319552844595 / 2 ^ 54" "dbl (3 / 10) = 5404319552844595 / 2 ^ 54"
  by (subst dbl_eval [of 54], simp_all add: roundEven_def Let_def)+

lemma dbl_seven_fifths: "dbl 1.4 = 3152519739159347 / 2 ^ 51" "dbl (7 / 5) = 3152519739159347 / 2 ^ 51"
  by (subst dbl_eval [of 52], simp_all add: roundEven_def Let_def)+

lemma dbl_three_fiftieths: "dbl 0.06 = 1080863910568919 / 2 ^ 54" "dbl (3 / 50) = 1080863910568919 / 2 ^ 54"
  by (subst dbl_eval [of 57], simp_all add: roundEven_def Let_def)+

lemma dbl_small_int [simp]: "dbl 1 = 1" "dbl 2 = 2" "dbl 25 = 25" "dbl 35 = 35"
  using dbl_of_int [of 1] dbl_of_int [of 2] dbl_of_int [of 25] dbl_of_int [of 35]
  by simp_all

subsection \<open>Rounding and the integers\<close>

text \<open>
  Below \<open>2 ^ 53\<close> every integer is a binary64 number, and rounding to nearest does not
  cross one.
\<close>

lemma roundEven_int_bounds:
  "of_int K \<le> y \<Longrightarrow> K \<le> roundEven y" "y \<le> of_int L \<Longrightarrow> roundEven y \<le> L"
proof -
  have f: "of_int \<lfloor>y\<rfloor> \<le> y" "y < of_int \<lfloor>y\<rfloor> + 1" by linarith+
  show "K \<le> roundEven y" if "of_int K \<le> y"
  proof -
    have "K \<le> \<lfloor>y\<rfloor>" using that by (simp add: le_floor_iff)
    then show ?thesis by (auto simp: roundEven_def Let_def)
  qed
  show "roundEven y \<le> L" if "y \<le> of_int L"
  proof (cases "y = of_int L")
    case True
    then show ?thesis by simp
  next
    case False
    then have "y < of_int L" using that by simp
    then have "\<lfloor>y\<rfloor> < L" by (simp add: floor_less_iff)
    then show ?thesis by (auto simp: roundEven_def Let_def)
  qed
qed

lemma dbl_between_ints:
  assumes "\<bar>x\<bar> < 2 ^ 53" "of_int K \<le> x" "x \<le> of_int L"
  shows "of_int K \<le> dbl x \<and> dbl x \<le> of_int L"
proof (cases "x = 0")
  case True
  then show ?thesis using assms by simp
next
  case False
  then have pos: "0 < \<bar>x\<bar>" by simp
  have "\<bar>x\<bar> < (2::real) powr of_int 53"
    using assms(1) by (simp add: powr_realpow)
  then have "log 2 \<bar>x\<bar> < of_int 53"
    using pos by (subst log_less_iff) simp_all
  then have "\<lfloor>log 2 \<bar>x\<bar>\<rfloor> < 53"
    by (simp only: floor_less_iff)
  then have le: "ulpExp x \<le> 0" "- 1074 \<le> ulpExp x"
    by (simp_all add: ulpExp_def)
  define j where "j = nat (- ulpExp x)"
  have j: "ulpExp x = - int j" using le by (simp add: j_def)
  have u: "(2::real) powr of_int (ulpExp x) = 1 / 2 ^ j"
    unfolding j by (rule pow2_int)
  have d: "dbl x = of_int (roundEven (x * 2 ^ j)) / 2 ^ j"
    using False unfolding dbl_def u by simp
  have b: "of_int (K * 2 ^ j) \<le> x * 2 ^ j" "x * 2 ^ j \<le> of_int (L * 2 ^ j)"
    using assms(2,3) by simp_all
  have "K * 2 ^ j \<le> roundEven (x * 2 ^ j)" "roundEven (x * 2 ^ j) \<le> L * 2 ^ j"
    using roundEven_int_bounds(1) [OF b(1)] roundEven_int_bounds(2) [OF b(2)] by blast+
  then have "(of_int (K * 2 ^ j) :: real) \<le> of_int (roundEven (x * 2 ^ j))"
    "(of_int (roundEven (x * 2 ^ j)) :: real) \<le> of_int (L * 2 ^ j)"
    by (simp_all only: of_int_le_iff)
  then show ?thesis
    unfolding d by (simp add: field_simps)
qed

lemma floor_dbl:
  assumes "\<bar>x\<bar> < 2 ^ 53"
  shows "\<lfloor>x\<rfloor> \<le> \<lfloor>dbl x\<rfloor>" "\<lfloor>dbl x\<rfloor> \<le> \<lfloor>x\<rfloor> + 1"
proof -
  have f: "of_int \<lfloor>x\<rfloor> \<le> x" "x \<le> of_int (\<lfloor>x\<rfloor> + 1)"
    by linarith+
  from dbl_between_ints [OF assms f]
  have b: "of_int \<lfloor>x\<rfloor> \<le> dbl x" "dbl x \<le> of_int (\<lfloor>x\<rfloor> + 1)" by blast+
  show "\<lfloor>x\<rfloor> \<le> \<lfloor>dbl x\<rfloor>" using b(1) by (simp only: le_floor_iff)
  show "\<lfloor>dbl x\<rfloor> \<le> \<lfloor>x\<rfloor> + 1" using b(2) by (rule floor_mono [of _ "of_int (\<lfloor>x\<rfloor> + 1)", unfolded floor_of_int])
qed

section \<open>Bounds on \<open>\<pi>\<close>\<close>

text \<open>
  The partial sums of the series of the arc tangent, alternately below and above it, and
  Machin's formula give \<open>\<pi>\<close> to four decimals.
\<close>

lemma arctan_partial_sums:
  fixes x :: real
  assumes x: "0 \<le> x" "x \<le> 1"
  shows "(\<Sum>i<2 * n. (- 1) ^ i * (1 / real (i * 2 + 1) * x ^ (i * 2 + 1))) \<le> arctan x"
    and "arctan x \<le> (\<Sum>i<2 * n + 1. (- 1) ^ i * (1 / real (i * 2 + 1) * x ^ (i * 2 + 1)))"
proof -
  define a where "a = (\<lambda>k. 1 / real (k * 2 + 1) * x ^ (k * 2 + 1))"
  have ax: "\<bar>x\<bar> \<le> 1" using x by simp
  have zero: "a \<longlonglongrightarrow> 0"
    unfolding a_def by (rule zeroseq_arctan_series [OF ax])
  have pos: "0 \<le> a k" for k
    using x by (simp add: a_def)
  have mono: "a (Suc k) \<le> a k" for k
  proof -
    have p: "x ^ (Suc k * 2 + 1) \<le> x ^ (k * 2 + 1)"
      using x by (intro power_decreasing) auto
    have q: "1 / real (Suc k * 2 + 1) \<le> 1 / real (k * 2 + 1)"
      by (simp add: field_simps)
    show ?thesis
      unfolding a_def using mult_mono [OF q p] x by simp
  qed
  have ser: "arctan x = (\<Sum>k. (- 1) ^ k * a k)"
    unfolding a_def by (rule arctan_series [OF ax])
  have lo: "(\<Sum>i<2 * n. (- 1) ^ i * a i) \<le> (\<Sum>k. (- 1) ^ k * a k)"
    using summable_Leibniz'(2) [of a n] zero pos mono by blast
  have hi: "(\<Sum>k. (- 1) ^ k * a k) \<le> (\<Sum>i<2 * n + 1. (- 1) ^ i * a i)"
    using summable_Leibniz'(4) [of a n] zero pos mono by blast
  show "(\<Sum>i<2 * n. (- 1) ^ i * (1 / real (i * 2 + 1) * x ^ (i * 2 + 1))) \<le> arctan x"
    using lo unfolding ser a_def .
  show "arctan x \<le> (\<Sum>i<2 * n + 1. (- 1) ^ i * (1 / real (i * 2 + 1) * x ^ (i * 2 + 1)))"
    using hi unfolding ser a_def .
qed

lemma arctan_fifth_lower: "1973955 / 10000000 \<le> arctan (1 / 5 :: real)"
proof -
  have "(\<Sum>i<2 * 2. (- 1) ^ i * (1 / real (i * 2 + 1) * (1 / 5 :: real) ^ (i * 2 + 1)))
      \<le> arctan (1 / 5)"
    by (rule arctan_partial_sums(1)) simp_all
  then show ?thesis
    by (simp add: lessThan_nat_numeral lessThan_Suc power_divide)
qed



lemma arctan_239_upper: "arctan (1 / 239 :: real) \<le> 1 / 239"
proof -
  have "arctan (1 / 239)
      \<le> (\<Sum>i<2 * 0 + 1. (- 1) ^ i * (1 / real (i * 2 + 1) * (1 / 239 :: real) ^ (i * 2 + 1)))"
    by (rule arctan_partial_sums(2)) simp_all
  then show ?thesis
    by simp
qed

lemma pi_lower: "3.1415 < pi"
proof -
  have "pi = 16 * arctan (1 / 5) - 4 * arctan (1 / 239)"
    using machin by simp
  then show ?thesis
    using arctan_fifth_lower arctan_239_upper by simp
qed


section \<open>Angles\<close>

lemma wrapDelta_cases:
  "wrapDelta d = (if d > pi then d - 2 * pi else if d < - pi then d + 2 * pi else d)"
  using pi_gt_zero by (auto simp: wrapDelta_def Let_def)

lemma atan2_range: "- pi < atan2 y x \<and> atan2 y x \<le> pi"
proof -
  have a: "- (pi / 2) < arctan (y / x)" "arctan (y / x) < pi / 2"
    by (rule arctan_lbound, rule arctan_ubound)
  have n: "x < 0 \<Longrightarrow> 0 \<le> y \<Longrightarrow> arctan (y / x) \<le> 0"
    by (simp add: divide_nonneg_neg)
  have p: "x < 0 \<Longrightarrow> y < 0 \<Longrightarrow> 0 < arctan (y / x)"
    by (simp add: divide_neg_neg)
  show ?thesis
    using a n p pi_gt_zero by (auto simp: atan2_def)
qed

lemma getAngle_range: "- pi < getAngle rect x y \<and> getAngle rect x y \<le> pi"
  by (simp add: getAngle_def Let_def atan2_range)

lemma wrapDelta_small: "\<bar>d\<bar> \<le> 3 \<Longrightarrow> wrapDelta d = d"
  using pi_lower by (auto simp: wrapDelta_cases)

lemma dragTo_fields [simp]:
  "currentAngle (dragTo angle s) = dbl (currentAngle s + wrapDelta (angle - lastMouseAngle s))"
  "velocity (dragTo angle s) = dbl (wrapDelta (angle - lastMouseAngle s) * 5)"
  "lastMouseAngle (dragTo angle s) = angle"
  "isDragging (dragTo angle s) = isDragging s"
  "audio (dragTo angle s) = audio s"
  "audioCalls (dragTo angle s) = audioCalls s"
  "photos (dragTo angle s) = photos s"
  "currentPhotoIndex (dragTo angle s) = currentPhotoIndex s"
  by (simp_all add: dragTo_def updateCrankVisual_def Let_def)

section \<open>The frame callback, piece by piece\<close>

lemma physics_fields [simp]:
  "isDragging (physics s) = isDragging s"
  "audio (physics s) = audio s"
  "audioCalls (physics s) = audioCalls s"
  "photos (physics s) = photos s"
  "currentPhotoIndex (physics s) = currentPhotoIndex s"
  "canvas_height (physics s) = canvas_height s"
  "canvas_width (physics s) = canvas_width s"
  "analyser (physics s) = analyser s"
  "isAudioSetup (physics s) = isAudioSetup s"
  "isLocalFile (physics s) = isLocalFile s"
  "waveSeed (physics s) = waveSeed s"
  "frameRequests (physics s) = frameRequests s"
  "lastMouseAngle (physics s) = lastMouseAngle s"
  by (simp_all add: physics_def cutOff_def applyFriction_def updateCrankVisual_def Let_def)

lemma physics_velocity:
  "velocity (physics s) =
     (if isDragging s then (if \<bar>velocity s\<bar> < dbl 0.001 then 0 else velocity s)
      else decayed (velocity s))"
  by (simp add: physics_def cutOff_def applyFriction_def updateCrankVisual_def Let_def decayed_def)

lemma physics_currentAngle:
  "currentAngle (physics s) =
     (if isDragging s then currentAngle s
      else dbl (currentAngle s + dbl (velocity s * FRICTION)))"
  by (simp add: physics_def cutOff_def applyFriction_def updateCrankVisual_def Let_def)

lemma physics_lastTime [simp]:
  "velocity (physics (s\<lparr>lastTime := t\<rparr>)) = velocity (physics s)"
  "currentAngle (physics (s\<lparr>lastTime := t\<rparr>)) = currentAngle (physics s)"
  by (simp_all add: physics_velocity physics_currentAngle)

lemma turnAndPlay_fields [simp]:
  "velocity (turnAndPlay e s) = velocity (physics s)"
  "currentAngle (turnAndPlay e s) = currentAngle (physics s)"
  "isDragging (turnAndPlay e s) = isDragging s"
  "audio (turnAndPlay e s) = snd (audioLogic (playAllowed e) \<bar>velocity (physics s)\<bar> (audio s))"
  "audioCalls (turnAndPlay e s)
     = audioCalls s @ fst (audioLogic (playAllowed e) \<bar>velocity (physics s)\<bar> (audio s))"
  "photos (turnAndPlay e s) = photos s"
  "currentPhotoIndex (turnAndPlay e s) = currentPhotoIndex s"
  "canvas_height (turnAndPlay e s) = canvas_height s"
  "canvas_width (turnAndPlay e s) = canvas_width s"
  "analyser (turnAndPlay e s) = analyser s"
  "isAudioSetup (turnAndPlay e s) = isAudioSetup s"
  "isLocalFile (turnAndPlay e s) = isLocalFile s"
  "waveSeed (turnAndPlay e s) = waveSeed s"
  "frameRequests (turnAndPlay e s) = frameRequests s"
  "lastMouseAngle (turnAndPlay e s) = lastMouseAngle s"
  "lastTime (turnAndPlay e s) = now e"
  by (simp_all add: turnAndPlay_def Let_def split: prod.splits,
      simp_all add: physics_def cutOff_def applyFriction_def updateCrankVisual_def Let_def)

lemma updatePhotos_fields:
  assumes "updatePhotos p s = Inr s'"
  shows "velocity s' = velocity s" "currentAngle s' = currentAngle s"
    "isDragging s' = isDragging s" "audio s' = audio s" "audioCalls s' = audioCalls s"
    "fills s' = fills s" "fillStyle s' = fillStyle s" "frameRequests s' = frameRequests s"
    "canvas_height s' = canvas_height s" "length (photos s') = length (photos s)"
    "isAudioSetup s' = isAudioSetup s" "analyser s' = analyser s"
  using assms by (auto simp: updatePhotos_def Let_def split: if_splits)

lemma photoIndex_range: "0 < n \<Longrightarrow> 0 \<le> photoIndex p n \<and> photoIndex p n < int n"
  by (auto simp: photoIndex_def Let_def)

lemma updatePhotos_total:
  assumes "indexInRange s"
  shows "\<exists>s'. updatePhotos p s = Inr s' \<and> indexInRange s'"
  using assms photoIndex_range [of "length (photos s)" p]
  by (auto simp: updatePhotos_def indexInRange_def Let_def)

lemma drawVisualizer_total:
  assumes "indexInRange s"
  shows "\<exists>s'. drawVisualizer e speed s = Inr s' \<and> indexInRange s'"
proof -
  have "indexInRange (s\<lparr>fillStyle := gradientStops (progressOf (audio s)),
      fills := visualizerBars e speed s\<rparr>)"
    using assms by (simp add: indexInRange_def)
  from updatePhotos_total [OF this] show ?thesis
    by (simp add: drawVisualizer_def Let_def)
qed

lemma drawVisualizer_fields:
  assumes "drawVisualizer e speed s = Inr s'"
  shows "velocity s' = velocity s" "currentAngle s' = currentAngle s"
    "isDragging s' = isDragging s" "audio s' = audio s" "audioCalls s' = audioCalls s"
    "fills s' = visualizerBars e speed s" "fillStyle s' = gradientStops (progressOf (audio s))"
    "frameRequests s' = frameRequests s"
    "canvas_height s' = canvas_height s" "length (photos s') = length (photos s)"
    "isAudioSetup s' = isAudioSetup s" "analyser s' = analyser s"
  using updatePhotos_fields [of "progressOf (audio s)"
      "s\<lparr>fillStyle := gradientStops (progressOf (audio s)), fills := visualizerBars e speed s\<rparr>" s']
    assms
  by (simp_all add: drawVisualizer_def Let_def)

lemma loop_Inr:
  "loop e s = Inr s' \<longleftrightarrow>
     (\<exists>s3. drawVisualizer e \<bar>velocity (physics s)\<bar> (turnAndPlay e s) = Inr s3
        \<and> s' = s3\<lparr>frameRequests := frameRequests s3 + 1\<rparr>)"
  by (auto simp: loop_def Let_def split: sum.splits)

lemma loop_total:
  assumes "indexInRange s"
  shows "\<exists>s'. loop e s = Inr s' \<and> indexInRange s'"
proof -
  have "indexInRange (turnAndPlay e s)"
    using assms by (simp add: indexInRange_def)
  from drawVisualizer_total [OF this] obtain s3
    where "drawVisualizer e \<bar>velocity (physics s)\<bar> (turnAndPlay e s) = Inr s3" "indexInRange s3"
    by blast
  then have "loop e s = Inr (s3\<lparr>frameRequests := frameRequests s3 + 1\<rparr>)
      \<and> indexInRange (s3\<lparr>frameRequests := frameRequests s3 + 1\<rparr>)"
    by (simp add: loop_Inr indexInRange_def)
  then show ?thesis by blast
qed

lemma loop_fields:
  assumes "loop e s = Inr s'"
  shows "velocity s' = velocity (physics s)"
    and "currentAngle s' = currentAngle (physics s)"
    and "isDragging s' = isDragging s"
    and "audio s' = snd (audioLogic (playAllowed e) \<bar>velocity (physics s)\<bar> (audio s))"
    and "audioCalls s' = audioCalls s @ fst (audioLogic (playAllowed e) \<bar>velocity (physics s)\<bar> (audio s))"
    and "frameRequests s' = frameRequests s + 1"
    and "canvas_height s' = canvas_height s"
    and "length (photos s') = length (photos s)"
    and "isAudioSetup s' = isAudioSetup s" and "analyser s' = analyser s"
    and "fills s' = visualizerBars e \<bar>velocity (physics s)\<bar> (turnAndPlay e s)"
proof -
  from assms obtain s3
    where d: "drawVisualizer e \<bar>velocity (physics s)\<bar> (turnAndPlay e s) = Inr s3"
      and s': "s' = s3\<lparr>frameRequests := frameRequests s3 + 1\<rparr>"
    by (auto simp: loop_Inr)
  note f = drawVisualizer_fields [OF d]
  show "velocity s' = velocity (physics s)" using f(1) s' by simp
  show "currentAngle s' = currentAngle (physics s)" using f(2) s' by simp
  show "isDragging s' = isDragging s" using f(3) s' by simp
  show "audio s' = snd (audioLogic (playAllowed e) \<bar>velocity (physics s)\<bar> (audio s))"
    using f(4) s' by simp
  show "audioCalls s' = audioCalls s @ fst (audioLogic (playAllowed e) \<bar>velocity (physics s)\<bar> (audio s))"
    using f(5) s' by simp
  show "frameRequests s' = frameRequests s + 1" using f(8) s' by simp
  show "canvas_height s' = canvas_height s" using f(9) s' by simp
  show "length (photos s') = length (photos s)" using f(10) s' by simp
  show "isAudioSetup s' = isAudioSetup s" using f(11) s' by simp
  show "analyser s' = analyser s" using f(12) s' by simp
  show "fills s' = visualizerBars e \<bar>velocity (physics s)\<bar> (turnAndPlay e s)"
    using f(6) s' by simp
qed

lemma loop_vn_Inr:
  "loop_vn e s = Inr s' \<longleftrightarrow>
     (\<exists>s3. drawVisualizer_vn e (turnAndPlay e s) = Inr s3
        \<and> s' = s3\<lparr>frameRequests := frameRequests s3 + 1\<rparr>)"
  by (auto simp: loop_vn_def Let_def split: sum.splits)

lemma drawVisualizer_vn_total:
  assumes "analyserReady s"
  shows "\<exists>s'. drawVisualizer_vn e s = Inr s' \<and> analyserReady s'"
  using assms by (auto simp: drawVisualizer_vn_def analyserReady_def Let_def split: if_splits)

lemma drawVisualizer_vn_fields:
  assumes "drawVisualizer_vn e s = Inr s'"
  shows "velocity s' = velocity s" "currentAngle s' = currentAngle s"
    "isDragging s' = isDragging s" "audio s' = audio s" "audioCalls s' = audioCalls s"
    "frameRequests s' = frameRequests s"
    "isAudioSetup s' = isAudioSetup s" "analyser s' = analyser s"
  using assms by (auto simp: drawVisualizer_vn_def Let_def split: if_splits)

lemma loop_vn_total:
  assumes "analyserReady s"
  shows "\<exists>s'. loop_vn e s = Inr s' \<and> analyserReady s'"
proof -
  have "analyserReady (turnAndPlay e s)"
    using assms by (simp add: analyserReady_def)
  from drawVisualizer_vn_total [OF this] obtain s3
    where "drawVisualizer_vn e (turnAndPlay e s) = Inr s3" "analyserReady s3"
    by blast
  then have "loop_vn e s = Inr (s3\<lparr>frameRequests := frameRequests s3 + 1\<rparr>)
      \<and> analyserReady (s3\<lparr>frameRequests := frameRequests s3 + 1\<rparr>)"
    by (simp add: loop_vn_Inr analyserReady_def)
  then show ?thesis by blast
qed

lemma loop_vn_fields:
  assumes "loop_vn e s = Inr s'"
  shows "velocity s' = velocity (physics s)"
    and "currentAngle s' = currentAngle (physics s)"
    and "isDragging s' = isDragging s"
    and "audio s' = snd (audioLogic (playAllowed e) \<bar>velocity (physics s)\<bar> (audio s))"
    and "audioCalls s' = audioCalls s @ fst (audioLogic (playAllowed e) \<bar>velocity (physics s)\<bar> (audio s))"
    and "frameRequests s' = frameRequests s + 1"
proof -
  from assms obtain s3
    where d: "drawVisualizer_vn e (turnAndPlay e s) = Inr s3"
      and s': "s' = s3\<lparr>frameRequests := frameRequests s3 + 1\<rparr>"
    by (auto simp: loop_vn_Inr)
  note f = drawVisualizer_vn_fields [OF d]
  show "velocity s' = velocity (physics s)" using f(1) s' by simp
  show "currentAngle s' = currentAngle (physics s)" using f(2) s' by simp
  show "isDragging s' = isDragging s" using f(3) s' by simp
  show "audio s' = snd (audioLogic (playAllowed e) \<bar>velocity (physics s)\<bar> (audio s))"
    using f(4) s' by simp
  show "audioCalls s' = audioCalls s @ fst (audioLogic (playAllowed e) \<bar>velocity (physics s)\<bar> (audio s))"
    using f(5) s' by simp
  show "frameRequests s' = frameRequests s + 1" using f(6) s' by simp
qed

text \<open>
  The stored index names a photo at the start and after every handler, so the callback
  of the script with the slideshow never throws; likewise the angle stored by a press or
  a move is one that \<open>Math.atan2\<close> returns.
\<close>

lemma indexInRange_initialState: "indexInRange (initialState localFile seed w h ps a)"
  by (cases ps) (simp_all add: indexInRange_def initialState_def)

lemma indexInRange_handlers:
  "indexInRange (startDrag rect outcome e s) = indexInRange s"
  "indexInRange (moveDrag rect e s) = indexInRange s"
  "indexInRange (endDrag s) = indexInRange s"
  "indexInRange (resizeCanvas w h s) = indexInRange s"
  "indexInRange (setupAudio outcome s) = indexInRange s"
  by (auto simp: indexInRange_def startDrag_def setupAudio_def moveDrag_def dragTo_def
      updateCrankVisual_def endDrag_def resizeCanvas_def Let_def split: setup_outcome.splits)

lemma lastMouseAngle_handlers:
  "- pi < lastMouseAngle (startDrag rect outcome e s)
   \<and> lastMouseAngle (startDrag rect outcome e s) \<le> pi"
  "isDragging s \<Longrightarrow> - pi < lastMouseAngle (moveDrag rect e s)
   \<and> lastMouseAngle (moveDrag rect e s) \<le> pi"
  using getAngle_range [of rect "clientX e" "clientY e"]
  by (auto simp: startDrag_def setupAudio_def moveDrag_def dragTo_def updateCrankVisual_def
      Let_def split: setup_outcome.splits)

section \<open>Runs of frames\<close>

lemma runs_step:
  assumes "runs step s"
  obtains s' where "step e s = Inr s'" and "runs step s'"
    and "velocity s' = velocity (physics s)"
    and "currentAngle s' = currentAngle (physics s)"
    and "isDragging s' = isDragging s"
    and "audio s' = snd (audioLogic (playAllowed e) \<bar>velocity (physics s)\<bar> (audio s))"
    and "audioCalls s' = audioCalls s @ fst (audioLogic (playAllowed e) \<bar>velocity (physics s)\<bar> (audio s))"
    and "frameRequests s' = frameRequests s + 1"
proof -
  from assms consider "step = loop" "indexInRange s" | "step = loop_vn" "analyserReady s"
    by (auto simp: runs_def)
  then show ?thesis
  proof cases
    case 1
    from loop_total [OF 1(2), of e] obtain s' where s': "loop e s = Inr s'" "indexInRange s'"
      by blast
    show ?thesis
      using that [of s'] s' 1(1) loop_fields [OF s'(1)] by (simp add: runs_def)
  next
    case 2
    from loop_vn_total [OF 2(2), of e] obtain s' where s': "loop_vn e s = Inr s'" "analyserReady s'"
      by blast
    show ?thesis
      using that [of s'] s' 2(1) loop_vn_fields [OF s'(1)] by (simp add: runs_def)
  qed
qed

lemma decayed_zero [simp]: "decayed 0 = 0"
  by (simp add: decayed_def)

lemma funpow_decayed_zero [simp]: "(decayed ^^ n) 0 = 0"
  by (induction n) simp_all

text \<open>
  What friction leaves is smaller by a factor, the rounding included: a product that is
  not cut off is far above the subnormal range, where the relative error of the rounding
  is at most \<open>2 ^ (-53)\<close>.
\<close>

lemma decayed_contract: "\<bar>decayed v\<bar> \<le> 0.9500000000000002 * \<bar>v\<bar>"
proof (cases "\<bar>dbl (v * FRICTION)\<bar> < dbl 0.001")
  case True
  then show ?thesis by (simp add: decayed_def)
next
  case False
  define w where "w = dbl (v * FRICTION)"
  have d: "decayed v = w"
    using False by (simp add: decayed_def w_def)
  have "1152921504606847 / 2 ^ 60 \<le> \<bar>w\<bar>"
    using False unfolding w_def dbl_thousandth by simp
  then have "1 / 2 ^ 60 \<le> \<bar>w\<bar>" by simp
  from dbl_normal [OF this [unfolded w_def]]
  have e: "\<bar>w - v * FRICTION\<bar> \<le> \<bar>v * FRICTION\<bar> / 2 ^ 53"
    by (simp only: w_def)
  have f: "\<bar>v * FRICTION\<bar> = \<bar>v\<bar> * (4278419646001971 / 2 ^ 52)"
    by (simp add: FRICTION_value abs_mult)
  have "\<bar>w\<bar> \<le> \<bar>v * FRICTION\<bar> + \<bar>v * FRICTION\<bar> / 2 ^ 53"
    using e by linarith
  also have "\<dots> = \<bar>v\<bar> * (4278419646001971 / 2 ^ 52 + 4278419646001971 / 2 ^ 52 / 2 ^ 53)"
    unfolding f by (simp add: algebra_simps)
  also have "\<dots> \<le> \<bar>v\<bar> * 0.9500000000000002"
    by (intro mult_left_mono) simp_all
  finally show ?thesis by (simp add: d mult.commute)
qed

lemma decayed_less: "v \<noteq> 0 \<Longrightarrow> \<bar>decayed v\<bar> < \<bar>v\<bar>"
  using decayed_contract [of v] by simp

lemma decayed_small:
  assumes "\<bar>v\<bar> < dbl 0.001"
  shows "decayed v = 0"
proof -
  have v: "\<bar>v\<bar> < 1152921504606847 / 2 ^ 60"
    using assms unfolding dbl_thousandth .
  have f: "\<bar>v * FRICTION\<bar> = \<bar>v\<bar> * (4278419646001971 / 2 ^ 52)"
    by (simp add: FRICTION_value abs_mult)
  have "\<bar>v * FRICTION\<bar> \<le> 1152921504606847 / 2 ^ 60 * (4278419646001971 / 2 ^ 52)"
    unfolding f using v by (intro mult_right_mono) simp_all
  then have p: "\<bar>v * FRICTION\<bar> \<le> 96 / 100000" by simp
  have "\<bar>dbl (v * FRICTION) - v * FRICTION\<bar> \<le> \<bar>v * FRICTION\<bar> / 2 ^ 53 + minNormal"
    by (rule dbl_bound)
  then have "\<bar>dbl (v * FRICTION)\<bar> \<le> \<bar>v * FRICTION\<bar> + \<bar>v * FRICTION\<bar> / 2 ^ 53 + minNormal"
    by linarith
  also have "\<dots> < 96 / 100000 + 96 / 100000 / 2 ^ 53 + 1 / 2 ^ 64"
    using p minNormal_small by (intro add_le_less_mono add_mono divide_right_mono) simp_all
  also have "\<dots> < 1152921504606847 / 2 ^ 60" by simp
  finally have "\<bar>dbl (v * FRICTION)\<bar> < dbl 0.001"
    unfolding dbl_thousandth .
  then show ?thesis by (simp add: decayed_def)
qed

lemma decayed_funpow_bound: "\<bar>(decayed ^^ n) v\<bar> \<le> 0.9500000000000002 ^ n * \<bar>v\<bar>"
proof (induction n)
  case 0
  then show ?case by simp
next
  case (Suc n)
  have "\<bar>(decayed ^^ Suc n) v\<bar> \<le> 0.9500000000000002 * \<bar>(decayed ^^ n) v\<bar>"
    using decayed_contract [of "(decayed ^^ n) v"] by simp
  also have "\<dots> \<le> 0.9500000000000002 * (0.9500000000000002 ^ n * \<bar>v\<bar>)"
    using Suc.IH by (intro mult_left_mono) simp_all
  finally show ?case by simp
qed

lemma physics_free:
  assumes "\<not> isDragging s"
  shows "velocity (physics s) = decayed (velocity s)"
    and "currentAngle (physics s) = dbl (currentAngle s + dbl (velocity s * FRICTION))"
  using assms by (simp_all add: physics_velocity physics_currentAngle)

lemma frames_append:
  "frames step (es @ es') s =
     (case frames step es s of Inl err \<Rightarrow> Inl err | Inr s' \<Rightarrow> frames step es' s')"
  by (induction es arbitrary: s) (auto split: sum.splits)

lemma frames_decay:
  assumes "runs step s" "\<not> isDragging s"
  shows "\<exists>s'. frames step es s = Inr s' \<and> runs step s' \<and> \<not> isDragging s'
    \<and> velocity s' = (decayed ^^ length es) (velocity s)"
  using assms
proof (induction es arbitrary: s rule: rev_induct)
  case Nil
  then show ?case by simp
next
  case (snoc e es)
  from snoc.IH [OF snoc.prems] obtain s1
    where s1: "frames step es s = Inr s1" "runs step s1" "\<not> isDragging s1"
      "velocity s1 = (decayed ^^ length es) (velocity s)"
    by blast
  from runs_step [OF s1(2), of e] obtain s2
    where s2: "step e s1 = Inr s2" "runs step s2" "velocity s2 = velocity (physics s1)"
      "isDragging s2 = isDragging s1"
    by metis
  have "frames step (es @ [e]) s = Inr s2"
    using s1(1) s2(1) by (simp add: frames_append)
  moreover have "velocity s2 = (decayed ^^ length (es @ [e])) (velocity s)"
    using s2(3) s1(4) physics_free(1) [OF s1(3)] by simp
  ultimately show ?case
    using s2(2,4) s1(3) by simp
qed

lemma decayed_eventually: "\<exists>n. \<forall>m\<ge>n. (decayed ^^ m) v = 0"
proof -
  define c where "c = \<bar>v\<bar> + 1"
  have c: "0 < c" "\<bar>v\<bar> \<le> c" by (simp_all add: c_def)
  have "\<exists>n. (0.9500000000000002 :: real) ^ n < (1 / 1000) / c"
    using c(1) by (intro real_arch_pow_inv) simp_all
  then obtain n where n: "(0.9500000000000002 :: real) ^ n < (1 / 1000) / c" by blast
  then have lt: "0.9500000000000002 ^ n * c < 1 / 1000"
    using c(1) by (simp only: pos_less_divide_eq)
  have "\<bar>(decayed ^^ n) v\<bar> \<le> 0.9500000000000002 ^ n * \<bar>v\<bar>"
    by (rule decayed_funpow_bound)
  also have "\<dots> \<le> 0.9500000000000002 ^ n * c"
    using c(2) by (intro mult_left_mono) simp_all
  also have "\<dots> < 1 / 1000" by (rule lt)
  also have "\<dots> < 1152921504606847 / 2 ^ 60" by simp
  finally have "\<bar>(decayed ^^ n) v\<bar> < dbl 0.001"
    unfolding dbl_thousandth .
  then have z: "(decayed ^^ Suc n) v = 0"
    using decayed_small by simp
  have "(decayed ^^ m) v = 0" if "Suc n \<le> m" for m
  proof -
    have "m = (m - Suc n) + Suc n" using that by simp
    then have "(decayed ^^ m) v = (decayed ^^ (m - Suc n)) ((decayed ^^ Suc n) v)"
      by (metis funpow_add o_apply)
    then show ?thesis unfolding z by simp
  qed
  then show ?thesis by blast
qed

section \<open>The example states\<close>

lemma pressed_fields:
  "isDragging pressed" "currentAngle pressed = 0" "velocity pressed = 0"
  "lastMouseAngle pressed = 0" "indexInRange pressed" "analyserReady pressed"
  "paused (audio pressed)" "audioCalls pressed = []" "canvas_height pressed = 64"
  "photos pressed = [True, False, False, False]" "currentPhotoIndex pressed = 0"
  "analyser pressed" "\<not> isLocalFile pressed"
  by (simp_all add: pressed_def startDrag_def setupAudio_def examplePage_def initialState_def
      exampleBox_def getAngle_def atan2_def indexInRange_def analyserReady_def freshAudio_def)









text \<open>
  The pressed crank dragged to the angle \<open>0.06\<close>, which sets the velocity \<open>0.3\<close>, and then
  released; a frame later the velocity is \<open>0.285\<close> and the angle \<open>0.345\<close>.
\<close>

lemma dbl_velocity_kept: "dbl 0.285 = 5134103575202365 / 2 ^ 54"
  by (subst dbl_eval [of 54]) (simp_all add: roundEven_def Let_def)

lemma three_fiftieths:
  "wrapDelta (dbl 0.06 - 0) = dbl 0.06" "dbl (dbl 0.06) = dbl 0.06"
  "dbl (dbl 0.06 * 5) = dbl 0.3" "dbl (dbl 0.3 * FRICTION) = dbl 0.285"
  "dbl (dbl 0.06 + dbl 0.285) = dbl 0.345"
proof -
  show "wrapDelta (dbl 0.06 - 0) = dbl 0.06"
    unfolding dbl_three_fiftieths(1) by (subst wrapDelta_small) simp_all
  show "dbl (dbl 0.06) = dbl 0.06"
    unfolding dbl_three_fiftieths(1) by (subst dbl_eval [of 57]) (simp_all add: roundEven_def Let_def)
  show "dbl (dbl 0.06 * 5) = dbl 0.3"
    unfolding dbl_three_fiftieths(1) dbl_three_tenths(1)
    by (subst dbl_eval [of 54]) (simp_all add: roundEven_def Let_def)
  show "dbl (dbl 0.3 * FRICTION) = dbl 0.285"
    unfolding dbl_three_tenths(1) FRICTION_value dbl_velocity_kept
    by (subst dbl_eval [of 54]) (simp_all add: roundEven_def Let_def)
  have "dbl 0.345 = 1553741871442821 / 2 ^ 52"
    by (subst dbl_eval [of 54]) (simp_all add: roundEven_def Let_def)
  then show "dbl (dbl 0.06 + dbl 0.285) = dbl 0.345"
    unfolding dbl_three_fiftieths(1) dbl_velocity_kept
    by (subst dbl_eval [of 54]) (simp_all add: roundEven_def Let_def)
qed

lemma dragged_fields:
  "isDragging (dragTo (dbl 0.06) pressed)" "velocity (dragTo (dbl 0.06) pressed) = dbl 0.3"
  "indexInRange (dragTo (dbl 0.06) pressed)" "paused (audio (dragTo (dbl 0.06) pressed))"
  "audioCalls (dragTo (dbl 0.06) pressed) = []"
  "currentAngle (dragTo (dbl 0.06) pressed) = dbl 0.06"
proof -
  show "velocity (dragTo (dbl 0.06) pressed) = dbl 0.3"
    unfolding dragTo_fields pressed_fields three_fiftieths(1) by (rule three_fiftieths(3))
  show "currentAngle (dragTo (dbl 0.06) pressed) = dbl 0.06"
    unfolding dragTo_fields pressed_fields three_fiftieths(1) by (simp only: add_0 three_fiftieths(2))
  show "isDragging (dragTo (dbl 0.06) pressed)" "indexInRange (dragTo (dbl 0.06) pressed)"
    "paused (audio (dragTo (dbl 0.06) pressed))" "audioCalls (dragTo (dbl 0.06) pressed) = []"
    using pressed_fields by (simp_all add: indexInRange_def)
qed

lemma released_fields:
  "\<not> isDragging (endDrag (dragTo (dbl 0.06) pressed))"
  "velocity (endDrag (dragTo (dbl 0.06) pressed)) = dbl 0.3"
  "currentAngle (endDrag (dragTo (dbl 0.06) pressed)) = dbl 0.06"
  "indexInRange (endDrag (dragTo (dbl 0.06) pressed))"
  using dragged_fields by (simp_all add: endDrag_def indexInRange_def)

lemma dragged_velocity:
  "velocity (physics (dragTo (dbl 0.06) pressed)) = dbl 0.3"
  "\<bar>dbl 0.3\<bar> = dbl 0.3" "dbl 0.3 > dbl 0.02"
proof -
  have "\<not> \<bar>dbl 0.3\<bar> < dbl 0.001"
    unfolding dbl_three_tenths(1) dbl_thousandth(1) by simp
  then show "velocity (physics (dragTo (dbl 0.06) pressed)) = dbl 0.3"
    unfolding physics_velocity dragged_fields using dragged_fields(1) by simp
  show "\<bar>dbl 0.3\<bar> = dbl 0.3" "dbl 0.3 > dbl 0.02"
    unfolding dbl_three_tenths(1) dbl_fiftieth(1) by simp_all
qed

section \<open>Dragging: claims C1 and C4\<close>







section \<open>Friction: claim C2\<close>

text \<open>
  The product of a velocity and the Number \<open>0.95\<close>, as the script computes it, is the real
  product with \<open>0.95\<close> up to the rounding of the literal and of the product.
\<close>

lemma friction_product_error: "\<bar>dbl (v * FRICTION) - v * 0.95\<bar> \<le> \<bar>v\<bar> / 2 ^ 52 + minNormal"
proof -
  have e: "\<bar>dbl (v * FRICTION) - v * FRICTION\<bar> \<le> \<bar>v * FRICTION\<bar> / 2 ^ 53 + minNormal"
    by (rule dbl_bound)
  have f: "\<bar>v * FRICTION\<bar> = \<bar>v\<bar> * (4278419646001971 / 2 ^ 52)"
    by (simp add: FRICTION_value abs_mult)
  have "v * FRICTION - v * 0.95 = v * (4278419646001971 / 2 ^ 52 - 0.95)"
    by (simp add: FRICTION_value algebra_simps)
  also have "\<dots> = v * (- (1 / 22517998136852480))"
    by simp
  finally have g: "\<bar>v * FRICTION - v * 0.95\<bar> = \<bar>v\<bar> * (1 / 22517998136852480)"
    by (simp only: abs_mult abs_minus abs_divide abs_one abs_numeral)
  have "\<bar>v\<bar> * (4278419646001971 / 2 ^ 52) / 2 ^ 53 + \<bar>v\<bar> * (1 / 22517998136852480)
      = \<bar>v\<bar> * (4278419646001971 / 2 ^ 52 / 2 ^ 53 + 1 / 22517998136852480)"
    by (simp add: algebra_simps)
  also have "\<dots> \<le> \<bar>v\<bar> * (1 / 2 ^ 52)"
    by (intro mult_left_mono) simp_all
  finally have "\<bar>v * FRICTION\<bar> / 2 ^ 53 + \<bar>v * FRICTION - v * 0.95\<bar> \<le> \<bar>v\<bar> / 2 ^ 52"
    unfolding f g by simp
  then show ?thesis using e by linarith
qed

text \<open>
  The velocity \<open>0.0010526315789473684\<close>: its product with \<open>0.95\<close> rounds to the Number
  \<open>0.001\<close>, which is not below \<open>0.001\<close> and is kept.
\<close>

lemma decayed_kept: "decayed (1213601583796681 / 2 ^ 60) = dbl 0.001"
proof -
  have p: "dbl (1213601583796681 / 2 ^ 60 * FRICTION) = 1152921504606847 / 2 ^ 60"
    unfolding FRICTION_value
    by (subst dbl_eval [of 62]) (simp_all add: roundEven_def Let_def)
  show ?thesis
    unfolding decayed_def p dbl_thousandth(1) by simp
qed

text \<open>
  Claim C2. In a state where the crank is not dragged, a frame of either script multiplies
  the velocity by the Number \<open>0.95\<close>, adds the product to the cumulative angle, and leaves
  the velocity at the product, or at \<open>0\<close> when the magnitude of the product is below the
  Number \<open>0.001\<close>; the products and the sum are the rounded ones of binary64, the product
  within \<open>\<bar>v\<bar> / 2 ^ 52\<close> of \<open>0.95 v\<close> (but for a velocity in the subnormal range). The
  magnitude of a velocity that is not zero strictly decreases. After \<open>n\<close> frames with
  nothing in between the velocity is the \<open>n\<close>-th iterate of that step, of a magnitude
  that has shrunk by \<open>0.9500000000000002 ^ n\<close> at least; a velocity of \<open>0\<close> stays \<open>0\<close>, and
  every velocity is \<open>0\<close> after enough frames. The test of the cut-off reads the rounded
  product: the velocity \<open>0.0010526315789473684\<close> becomes the Number \<open>0.001\<close> and is kept
  for that frame.
\<close>

theorem friction_decay:
  assumes "runs step s" "\<not> isDragging s"
  shows "(\<exists>s'. step e s = Inr s'
          \<and> velocity s' = (if \<bar>dbl (velocity s * FRICTION)\<bar> < dbl 0.001 then 0
                           else dbl (velocity s * FRICTION))
          \<and> currentAngle s' = dbl (currentAngle s + dbl (velocity s * FRICTION))
          \<and> (velocity s \<noteq> 0 \<longrightarrow> \<bar>velocity s'\<bar> < \<bar>velocity s\<bar>))
    \<and> FRICTION = dbl 0.95
    \<and> \<bar>dbl (velocity s * FRICTION) - velocity s * 0.95\<bar> \<le> \<bar>velocity s\<bar> / 2 ^ 52 + minNormal
    \<and> (\<exists>s'. frames step es s = Inr s' \<and> \<not> isDragging s'
          \<and> velocity s' = (decayed ^^ length es) (velocity s)
          \<and> \<bar>velocity s'\<bar> \<le> 0.9500000000000002 ^ length es * \<bar>velocity s\<bar>)
    \<and> (velocity s = 0 \<longrightarrow> (\<exists>s'. frames step es s = Inr s' \<and> velocity s' = 0))
    \<and> (\<exists>n. \<forall>es'. n \<le> length es' \<longrightarrow> (\<exists>s'. frames step es' s = Inr s' \<and> velocity s' = 0))
    \<and> decayed (1213601583796681 / 2 ^ 60) = dbl 0.001"
proof -
  from runs_step [OF assms(1), of e] obtain s1
    where s1: "step e s = Inr s1" "velocity s1 = velocity (physics s)"
      "currentAngle s1 = currentAngle (physics s)"
    by metis
  have v1: "velocity s1 = (if \<bar>dbl (velocity s * FRICTION)\<bar> < dbl 0.001 then 0
                           else dbl (velocity s * FRICTION))"
    using s1(2) physics_free(1) [OF assms(2)] by (simp only: decayed_def)
  have a1: "currentAngle s1 = dbl (currentAngle s + dbl (velocity s * FRICTION))"
    using s1(3) physics_free(2) [OF assms(2)] by simp
  have d1: "\<bar>velocity s1\<bar> < \<bar>velocity s\<bar>" if "velocity s \<noteq> 0"
    using decayed_less [OF that] s1(2) physics_free(1) [OF assms(2)] by simp
  have one: "\<exists>s'. step e s = Inr s'
          \<and> velocity s' = (if \<bar>dbl (velocity s * FRICTION)\<bar> < dbl 0.001 then 0
                           else dbl (velocity s * FRICTION))
          \<and> currentAngle s' = dbl (currentAngle s + dbl (velocity s * FRICTION))
          \<and> (velocity s \<noteq> 0 \<longrightarrow> \<bar>velocity s'\<bar> < \<bar>velocity s\<bar>)"
    using s1(1) v1 a1 d1 by blast
  have many: "\<exists>s'. frames step es' s = Inr s' \<and> \<not> isDragging s'
          \<and> velocity s' = (decayed ^^ length es') (velocity s)
          \<and> \<bar>velocity s'\<bar> \<le> 0.9500000000000002 ^ length es' * \<bar>velocity s\<bar>" for es'
    using frames_decay [OF assms, of es'] decayed_funpow_bound [of "length es'" "velocity s"]
    by auto
  have stay: "velocity s = 0 \<longrightarrow> (\<exists>s'. frames step es s = Inr s' \<and> velocity s' = 0)"
    using many [of es] by auto
  obtain n where n: "\<forall>m\<ge>n. (decayed ^^ m) (velocity s) = 0"
    using decayed_eventually by blast
  have "\<exists>s'. frames step es' s = Inr s' \<and> velocity s' = 0" if "n \<le> length es'" for es'
    using many [of es'] n that by auto
  then have rest: "\<exists>n. \<forall>es'. n \<le> length es' \<longrightarrow> (\<exists>s'. frames step es' s = Inr s' \<and> velocity s' = 0)"
    by blast
  show ?thesis
    using one many [of es] stay rest FRICTION_def friction_product_error [of "velocity s"]
      decayed_kept
    by blast
qed

theorem friction_decay_witness:
  "runs loop (endDrag (dragTo (dbl 0.06) pressed))
   \<and> \<not> isDragging (endDrag (dragTo (dbl 0.06) pressed))
   \<and> velocity (endDrag (dragTo (dbl 0.06) pressed)) = dbl 0.3
   \<and> currentAngle (endDrag (dragTo (dbl 0.06) pressed)) = dbl 0.06
   \<and> (\<exists>s'. loop (exampleFrame True) (endDrag (dragTo (dbl 0.06) pressed)) = Inr s'
         \<and> velocity s' = dbl 0.285 \<and> currentAngle s' = dbl 0.345
         \<and> \<bar>velocity s'\<bar> < \<bar>dbl 0.3\<bar>)
   \<and> runs loop (endDrag pressed) \<and> \<not> isDragging (endDrag pressed)
   \<and> velocity (endDrag pressed) = 0
   \<and> (\<exists>s'. frames loop [exampleFrame True, exampleFrame True] (endDrag pressed) = Inr s'
         \<and> velocity s' = 0)"
proof -
  define s where "s = endDrag (dragTo (dbl 0.06) pressed)"
  have f: "\<not> isDragging s" "velocity s = dbl 0.3" "currentAngle s = dbl 0.06" "indexInRange s"
    unfolding s_def by (rule released_fields)+
  have r: "runs loop s"
    using f(4) by (simp add: runs_def)
  have nz: "velocity s \<noteq> 0"
    unfolding f(2) dbl_three_tenths(1) by simp
  from friction_decay [OF r f(1), of "exampleFrame True" "[]"] obtain s'
    where s': "loop (exampleFrame True) s = Inr s'"
      and v: "velocity s' = (if \<bar>dbl (velocity s * FRICTION)\<bar> < dbl 0.001 then 0
                else dbl (velocity s * FRICTION))"
      and a: "currentAngle s' = dbl (currentAngle s + dbl (velocity s * FRICTION))"
      and d: "velocity s \<noteq> 0 \<longrightarrow> \<bar>velocity s'\<bar> < \<bar>velocity s\<bar>"
    by blast
  have big: "\<not> \<bar>dbl 0.285\<bar> < dbl 0.001"
    unfolding dbl_velocity_kept dbl_thousandth(1) by simp
  have v': "velocity s' = dbl 0.285"
    unfolding v f(2) three_fiftieths(4) using big by (simp only: if_False)
  have a': "currentAngle s' = dbl 0.345"
    unfolding a f(2,3) three_fiftieths(4) by (rule three_fiftieths(5))
  have lt: "\<bar>velocity s'\<bar> < \<bar>dbl 0.3\<bar>"
    using d nz unfolding f(2) by blast
  have g: "\<not> isDragging (endDrag pressed)" "velocity (endDrag pressed) = 0"
    "indexInRange (endDrag pressed)"
    using pressed_fields by (simp_all add: endDrag_def indexInRange_def)
  have r0: "runs loop (endDrag pressed)"
    using g(3) by (simp add: runs_def)
  have "\<exists>s'. frames loop [exampleFrame True, exampleFrame True] (endDrag pressed) = Inr s'
      \<and> velocity s' = 0"
    using friction_decay [OF r0 g(1), of _ "[exampleFrame True, exampleFrame True]"] g(2)
    by blast
  then show ?thesis
    using r f(1,2,3) s' v' a' lt r0 g(1,2) unfolding s_def by blast
qed

section \<open>Playback: claims C3, C8, C10 and C9\<close>

lemma audioLogic_fast:
  assumes "speed > dbl 0.02"
  shows "playbackRate (snd (audioLogic allowed speed a))
        = clamp (dbl (0.5 + dbl (speed * 3))) (dbl 0.8) 1.5"
    and "volume (snd (audioLogic allowed speed a)) = min 1 (dbl (speed * 5))"
    and "fst (audioLogic allowed speed a) = (if paused a then [Play] else [])"
    and "paused (snd (audioLogic allowed speed a)) = (paused a \<and> \<not> allowed)"
  using assms
  by (auto simp: audioLogic_def audio_play_def clamp_def Let_def dbl_four_fifths split: if_splits)


lemma audioLogic_again:
  "snd (audioLogic allowed speed (snd (audioLogic allowed speed a))) = snd (audioLogic allowed speed a)"
  by (auto simp: audioLogic_def audio_play_def audio_pause_def Let_def)

text \<open>
  The scenario of claim C3 in binary64: \<open>0.3 * 3\<close> is the Number next below \<open>0.9\<close>, and
  \<open>0.5\<close> more is the Number \<open>1.4\<close>; \<open>0.3 * 5\<close> is \<open>1.5\<close>.
\<close>

lemma three_tenths_rate:
  "dbl (0.5 + dbl (dbl 0.3 * 3)) = dbl 1.4" "dbl (dbl 0.3 * 5) = 1.5"
proof -
  have p: "dbl (dbl 0.3 * 3) = 2026619832316723 / 2 ^ 51"
    unfolding dbl_three_tenths(1) by (subst dbl_eval [of 53]) (simp_all add: roundEven_def Let_def)
  show "dbl (0.5 + dbl (dbl 0.3 * 3)) = dbl 1.4"
    unfolding p dbl_seven_fifths(1) by (subst dbl_eval [of 52]) (simp_all add: roundEven_def Let_def)
  show "dbl (dbl 0.3 * 5) = 1.5"
    unfolding dbl_three_tenths(1) by (subst dbl_eval [of 52]) (simp_all add: roundEven_def Let_def)
qed

text \<open>
  Claim C3. The speed of a frame is the magnitude of the velocity after the rotation step,
  which is the velocity the frame leaves. When it exceeds \<open>0.02\<close>, the frame sets the
  playback rate to \<open>clamp(0.5 + speed * 3, 0.8, 1.5)\<close>, in \<open>[0.8, 1.5]\<close>, and the volume to
  \<open>min(1, speed * 5)\<close>, in \<open>[0, 1]\<close>; at speed \<open>0.3\<close> the rate is \<open>1.4\<close> and the volume \<open>1\<close>.
  The literals are the Numbers of the script and the products and the sum are the rounded
  ones of binary64, as everywhere.
\<close>

theorem playback_rate_volume:
  assumes "runs step s"
  shows "\<exists>s'. step e s = Inr s'
     \<and> (\<bar>velocity s'\<bar> > dbl 0.02 \<longrightarrow>
          playbackRate (audio s') = clamp (dbl (0.5 + dbl (\<bar>velocity s'\<bar> * 3))) (dbl 0.8) 1.5
        \<and> 0.8 \<le> playbackRate (audio s') \<and> playbackRate (audio s') \<le> 1.5
        \<and> volume (audio s') = min 1 (dbl (\<bar>velocity s'\<bar> * 5))
        \<and> 0 \<le> volume (audio s') \<and> volume (audio s') \<le> 1)
     \<and> (\<bar>velocity s'\<bar> = dbl 0.3 \<longrightarrow>
          playbackRate (audio s') = dbl 1.4 \<and> volume (audio s') = 1)"
proof -
  from runs_step [OF assms, of e] obtain s'
    where s': "step e s = Inr s'" "velocity s' = velocity (physics s)"
      "audio s' = snd (audioLogic (playAllowed e) \<bar>velocity (physics s)\<bar> (audio s))"
    by metis
  have a: "audio s' = snd (audioLogic (playAllowed e) \<bar>velocity s'\<bar> (audio s))"
    using s'(2,3) by simp
  have fast: "playbackRate (audio s') = clamp (dbl (0.5 + dbl (\<bar>velocity s'\<bar> * 3))) (dbl 0.8) 1.5
        \<and> 0.8 \<le> playbackRate (audio s') \<and> playbackRate (audio s') \<le> 1.5
        \<and> volume (audio s') = min 1 (dbl (\<bar>velocity s'\<bar> * 5))
        \<and> 0 \<le> volume (audio s') \<and> volume (audio s') \<le> 1" if "\<bar>velocity s'\<bar> > dbl 0.02"
  proof -
    have "0 \<le> dbl (\<bar>velocity s'\<bar> * 5)"
      by (intro dbl_nonneg) simp
    then show ?thesis
      using audioLogic_fast(1,2) [OF that, of "playAllowed e" "audio s"]
      unfolding a [symmetric] by (auto simp: clamp_def max_def min_def dbl_four_fifths)
  qed
  have "playbackRate (audio s') = dbl 1.4 \<and> volume (audio s') = 1" if "\<bar>velocity s'\<bar> = dbl 0.3"
  proof -
    have "\<bar>velocity s'\<bar> > dbl 0.02"
      unfolding that dbl_three_tenths(1) dbl_fiftieth(1) by simp
    from fast [OF this] have "playbackRate (audio s') = clamp (dbl 1.4) (dbl 0.8) 1.5"
      and "volume (audio s') = min 1 1.5"
      unfolding that three_tenths_rate by blast+
    then show ?thesis
      unfolding dbl_seven_fifths(1) dbl_four_fifths(1) by (simp add: clamp_def)
  qed
  then show ?thesis
    using s'(1) fast by blast
qed

theorem playback_rate_volume_witness:
  "runs loop (dragTo (dbl 0.06) pressed)
   \<and> (\<exists>s'. loop (exampleFrame True) (dragTo (dbl 0.06) pressed) = Inr s'
        \<and> \<bar>velocity s'\<bar> = dbl 0.3 \<and> \<bar>velocity s'\<bar> > dbl 0.02
        \<and> playbackRate (audio s') = dbl 1.4 \<and> volume (audio s') = 1)"
proof -
  have r: "runs loop (dragTo (dbl 0.06) pressed)"
    using dragged_fields by (simp add: runs_def)
  from playback_rate_volume [OF r, of "exampleFrame True"] obtain s'
    where s': "loop (exampleFrame True) (dragTo (dbl 0.06) pressed) = Inr s'"
      and sc: "\<bar>velocity s'\<bar> = dbl 0.3 \<longrightarrow>
          playbackRate (audio s') = dbl 1.4 \<and> volume (audio s') = 1"
    by blast
  have v: "\<bar>velocity s'\<bar> = dbl 0.3" "\<bar>velocity s'\<bar> > dbl 0.02"
    using loop_fields(1) [OF s'] dragged_velocity by simp_all
  then show ?thesis
    using r s' sc by blast
qed

lemma audioLogic_calls:
  "fst (audioLogic allowed speed a)
     = (if speed > dbl 0.02 then (if paused a then [Play] else [])
        else (if paused a then [] else [Pause]))"
  by (auto simp: audioLogic_def Let_def split: prod.splits)

lemma audioLogic_paused:
  "paused (snd (audioLogic allowed speed a))
     = (if speed > dbl 0.02 then paused a \<and> \<not> allowed else True)"
  by (auto simp: audioLogic_def audio_play_def audio_pause_def Let_def)

text \<open>
  Claim C8. In a frame of either script the controller calls \<open>play\<close> when the speed
  exceeds \<open>0.02\<close> and the element is paused, \<open>pause\<close> when the speed is at most \<open>0.02\<close> and
  the element is playing, and nothing otherwise: what it asks of the transport is to
  play exactly when the speed exceeds \<open>0.02\<close>, with the one threshold in both directions.
  Where the host allows playback the element plays after the frame exactly when the
  speed exceeds \<open>0.02\<close>; at a speed of at most \<open>0.02\<close> it is paused in any case. Running the
  audio logic again at the same speed changes nothing on the element and makes no call,
  but for the \<open>play\<close> that the host has just refused. The threshold is the Number
  \<open>0.02\<close> of the script.
\<close>

theorem playback_threshold:
  assumes "runs step s"
  shows "\<exists>s' calls. step e s = Inr s' \<and> audioCalls s' = audioCalls s @ calls
     \<and> calls = (if \<bar>velocity s'\<bar> > dbl 0.02 then (if paused (audio s) then [Play] else [])
                else (if paused (audio s) then [] else [Pause]))
     \<and> (intendedPlaying (audio s) calls \<longleftrightarrow> \<bar>velocity s'\<bar> > dbl 0.02)
     \<and> (playAllowed e \<longrightarrow> (\<not> paused (audio s') \<longleftrightarrow> \<bar>velocity s'\<bar> > dbl 0.02))
     \<and> (\<bar>velocity s'\<bar> \<le> dbl 0.02 \<longrightarrow> paused (audio s'))
     \<and> audioLogic (playAllowed e) \<bar>velocity s'\<bar> (audio s')
         = (if \<bar>velocity s'\<bar> > dbl 0.02 \<and> paused (audio s) \<and> \<not> playAllowed e then [Play] else [],
            audio s')"
proof -
  from runs_step [OF assms, of e] obtain s'
    where s': "step e s = Inr s'" "velocity s' = velocity (physics s)"
      "audio s' = snd (audioLogic (playAllowed e) \<bar>velocity (physics s)\<bar> (audio s))"
      "audioCalls s' = audioCalls s @ fst (audioLogic (playAllowed e) \<bar>velocity (physics s)\<bar> (audio s))"
    by metis
  define speed where "speed = \<bar>velocity s'\<bar>"
  define calls where "calls = fst (audioLogic (playAllowed e) speed (audio s))"
  have a: "audio s' = snd (audioLogic (playAllowed e) speed (audio s))"
    and c: "audioCalls s' = audioCalls s @ calls"
    using s'(2,3,4) by (simp_all add: speed_def calls_def)
  have cs: "calls = (if speed > dbl 0.02 then (if paused (audio s) then [Play] else [])
                else (if paused (audio s) then [] else [Pause]))"
    unfolding calls_def by (rule audioLogic_calls)
  have i: "intendedPlaying (audio s) calls \<longleftrightarrow> speed > dbl 0.02"
    unfolding cs by (simp add: intendedPlaying_def)
  have p: "paused (audio s') = (if speed > dbl 0.02 then paused (audio s) \<and> \<not> playAllowed e else True)"
    unfolding a by (rule audioLogic_paused)
  have again: "audioLogic (playAllowed e) speed (audio s')
         = (if speed > dbl 0.02 \<and> paused (audio s) \<and> \<not> playAllowed e then [Play] else [], audio s')"
  proof -
    have "snd (audioLogic (playAllowed e) speed (audio s')) = audio s'"
      unfolding a by (rule audioLogic_again)
    moreover have "fst (audioLogic (playAllowed e) speed (audio s'))
        = (if speed > dbl 0.02 \<and> paused (audio s) \<and> \<not> playAllowed e then [Play] else [])"
      unfolding audioLogic_calls p by simp
    ultimately show ?thesis by (simp add: prod_eq_iff)
  qed
  show ?thesis
    using s'(1) c cs i p again unfolding speed_def by (intro exI [of _ s'] exI [of _ calls]) simp
qed

theorem playback_threshold_witness:
  "runs loop (dragTo (dbl 0.06) pressed) \<and> paused (audio (dragTo (dbl 0.06) pressed))
   \<and> playAllowed (exampleFrame True)
   \<and> (\<exists>s'. loop (exampleFrame True) (dragTo (dbl 0.06) pressed) = Inr s'
        \<and> \<bar>velocity s'\<bar> > dbl 0.02 \<and> audioCalls s' = [Play] \<and> \<not> paused (audio s'))"
proof -
  have r: "runs loop (dragTo (dbl 0.06) pressed)"
    using dragged_fields by (simp add: runs_def)
  from playback_threshold [OF r, of "exampleFrame True"] obtain s' calls
    where s': "loop (exampleFrame True) (dragTo (dbl 0.06) pressed) = Inr s'"
      and c: "audioCalls s' = audioCalls (dragTo (dbl 0.06) pressed) @ calls"
        "calls = (if \<bar>velocity s'\<bar> > dbl 0.02 then (if paused (audio (dragTo (dbl 0.06) pressed)) then [Play] else [])
                else (if paused (audio (dragTo (dbl 0.06) pressed)) then [] else [Pause]))"
      and p: "playAllowed (exampleFrame True) \<longrightarrow> (\<not> paused (audio s') \<longleftrightarrow> \<bar>velocity s'\<bar> > dbl 0.02)"
    by blast
  have v: "\<bar>velocity s'\<bar> > dbl 0.02"
    using loop_fields(1) [OF s'] dragged_velocity by simp
  have "playAllowed (exampleFrame True)" by (simp add: exampleFrame_def)
  then show ?thesis
    using r s' c p v dragged_fields by simp
qed


lemma runs_dragTo [simp]: "runs step (dragTo angle s) = runs step s"
  by (simp add: runs_def indexInRange_def analyserReady_def dragTo_def updateCrankVisual_def Let_def)

lemma runs_endDrag [simp]: "runs step (endDrag s) = runs step s"
  by (simp add: runs_def indexInRange_def analyserReady_def endDrag_def)






lemma rawBarHeight_cong:
  assumes "waveSeed s' = waveSeed s" "analyser s' = analyser s" "isLocalFile s' = isLocalFile s"
    and "freqData e' = freqData e" "random e' = random e"
  shows "rawBarHeight s' e' speed i = rawBarHeight s e speed i"
  using assms by (simp add: rawBarHeight_def Let_def)

lemma drawBars_cong:
  assumes "waveSeed s' = waveSeed s" "analyser s' = analyser s" "isLocalFile s' = isLocalFile s"
    and "canvas_height s' = canvas_height s"
    and "freqData e' = freqData e" "random e' = random e"
  shows "drawBars s' e' speed barWidth is x = drawBars s e speed barWidth is x"
  using assms
  by (induction "is" arbitrary: x)
    (simp_all add: rawBarHeight_cong [of s' s e' e] Let_def split: option.splits)

lemma visualizerBars_cong:
  assumes "waveSeed s' = waveSeed s" "analyser s' = analyser s" "isLocalFile s' = isLocalFile s"
    and "canvas_height s' = canvas_height s" "canvas_width s' = canvas_width s"
    and "freqData e' = freqData e" "random e' = random e"
  shows "visualizerBars e' speed s' = visualizerBars e speed s"
  using assms by (simp add: visualizerBars_def drawBars_cong [of s' s e' e])

lemma progressOf_paused [simp]: "progressOf (a\<lparr>paused := p\<rparr>) = progressOf a"
  by (simp add: progressOf_def split: option.splits)

lemma audioLogic_rejected:
  "audioLogic False speed a
     = (fst (audioLogic True speed a),
        (snd (audioLogic True speed a))\<lparr>paused := (if speed > dbl 0.02 then paused a else True)\<rparr>)"
  by (auto simp: audioLogic_def audio_play_def audio_pause_def Let_def)

lemma turnAndPlay_rejected:
  "turnAndPlay (e\<lparr>playAllowed := False\<rparr>) s
     = (turnAndPlay (e\<lparr>playAllowed := True\<rparr>) s)
         \<lparr>audio := (audio (turnAndPlay (e\<lparr>playAllowed := True\<rparr>) s))
            \<lparr>paused := (if \<bar>velocity (physics s)\<bar> > dbl 0.02 then paused (audio s) else True)\<rparr>\<rparr>"
  by (simp add: turnAndPlay_def Let_def audioLogic_rejected [of _ "audio s"] split: prod.splits)

lemma updatePhotos_paused:
  "updatePhotos progress (s\<lparr>audio := (audio s)\<lparr>paused := p\<rparr>\<rparr>)
     = (case updatePhotos progress s of
          Inl err \<Rightarrow> Inl err
        | Inr s' \<Rightarrow> Inr (s'\<lparr>audio := (audio s')\<lparr>paused := p\<rparr>\<rparr>))"
  by (simp add: updatePhotos_def Let_def)

lemma drawVisualizer_paused:
  assumes "freqData e' = freqData e" "random e' = random e"
  shows "drawVisualizer e' speed (s\<lparr>audio := (audio s)\<lparr>paused := p\<rparr>\<rparr>)
     = (case drawVisualizer e speed s of
          Inl err \<Rightarrow> Inl err
        | Inr s' \<Rightarrow> Inr (s'\<lparr>audio := (audio s')\<lparr>paused := p\<rparr>\<rparr>))"
proof -
  have v: "visualizerBars e' speed (s\<lparr>audio := (audio s)\<lparr>paused := p\<rparr>\<rparr>) = visualizerBars e speed s"
    using assms by (intro visualizerBars_cong) simp_all
  have eq: "s\<lparr>audio := A, fillStyle := G, fills := V\<rparr> = s\<lparr>fillStyle := G, fills := V, audio := A\<rparr>"
    for A G V by (cases s) simp
  have "updatePhotos (progressOf (audio s))
      (s\<lparr>fillStyle := gradientStops (progressOf (audio s)), fills := visualizerBars e speed s,
         audio := (audio s)\<lparr>paused := p\<rparr>\<rparr>)
    = (case updatePhotos (progressOf (audio s))
            (s\<lparr>fillStyle := gradientStops (progressOf (audio s)), fills := visualizerBars e speed s\<rparr>) of
          Inl err \<Rightarrow> Inl err
        | Inr s' \<Rightarrow> Inr (s'\<lparr>audio := (audio s')\<lparr>paused := p\<rparr>\<rparr>))"
    using updatePhotos_paused [where progress = "progressOf (audio s)" and p = p
        and s = "s\<lparr>fillStyle := gradientStops (progressOf (audio s)), fills := visualizerBars e speed s\<rparr>"]
    by simp
  then show ?thesis
    by (simp add: drawVisualizer_def Let_def v eq)
qed

lemma drawVisualizer_vn_paused:
  assumes "freqData e' = freqData e"
  shows "drawVisualizer_vn e' (s\<lparr>audio := (audio s)\<lparr>paused := p\<rparr>\<rparr>)
     = (case drawVisualizer_vn e s of
          Inl err \<Rightarrow> Inl err
        | Inr s' \<Rightarrow> Inr (s'\<lparr>audio := (audio s')\<lparr>paused := p\<rparr>\<rparr>))"
  using assms by (simp add: drawVisualizer_vn_def Let_def)

lemma loop_rejected:
  assumes "loop (e\<lparr>playAllowed := True\<rparr>) s = Inr s2"
  shows "loop (e\<lparr>playAllowed := False\<rparr>) s
     = Inr (s2\<lparr>audio := (audio s2)
          \<lparr>paused := (if \<bar>velocity (physics s)\<bar> > dbl 0.02 then paused (audio s) else True)\<rparr>\<rparr>)"
proof -
  from assms obtain s3
    where d: "drawVisualizer (e\<lparr>playAllowed := True\<rparr>) \<bar>velocity (physics s)\<bar>
                (turnAndPlay (e\<lparr>playAllowed := True\<rparr>) s) = Inr s3"
      and s2: "s2 = s3\<lparr>frameRequests := frameRequests s3 + 1\<rparr>"
    by (auto simp: loop_Inr)
  show ?thesis
    unfolding loop_def Let_def turnAndPlay_rejected
    using drawVisualizer_paused [where e' = "e\<lparr>playAllowed := False\<rparr>"
        and e = "e\<lparr>playAllowed := True\<rparr>" and speed = "\<bar>velocity (physics s)\<bar>"
        and s = "turnAndPlay (e\<lparr>playAllowed := True\<rparr>) s"] d s2
    by simp
qed

lemma loop_vn_rejected:
  assumes "loop_vn (e\<lparr>playAllowed := True\<rparr>) s = Inr s2"
  shows "loop_vn (e\<lparr>playAllowed := False\<rparr>) s
     = Inr (s2\<lparr>audio := (audio s2)
          \<lparr>paused := (if \<bar>velocity (physics s)\<bar> > dbl 0.02 then paused (audio s) else True)\<rparr>\<rparr>)"
proof -
  from assms obtain s3
    where d: "drawVisualizer_vn (e\<lparr>playAllowed := True\<rparr>)
                (turnAndPlay (e\<lparr>playAllowed := True\<rparr>) s) = Inr s3"
      and s2: "s2 = s3\<lparr>frameRequests := frameRequests s3 + 1\<rparr>"
    by (auto simp: loop_vn_Inr)
  show ?thesis
    unfolding loop_vn_def Let_def turnAndPlay_rejected
    using drawVisualizer_vn_paused [where e' = "e\<lparr>playAllowed := False\<rparr>"
        and e = "e\<lparr>playAllowed := True\<rparr>"
        and s = "turnAndPlay (e\<lparr>playAllowed := True\<rparr>) s"] d s2
    by simp
qed

lemma step_rejected:
  assumes "runs step s" "step (e\<lparr>playAllowed := True\<rparr>) s = Inr s2"
  shows "step (e\<lparr>playAllowed := False\<rparr>) s
     = Inr (s2\<lparr>audio := (audio s2)
          \<lparr>paused := (if \<bar>velocity (physics s)\<bar> > dbl 0.02 then paused (audio s) else True)\<rparr>\<rparr>)"
  using assms loop_rejected [of e s s2] loop_vn_rejected [of e s s2] by (auto simp: runs_def)

text \<open>
  Claim C9. Take a frame of either script twice from the same state, once with the host
  refusing \<open>audio.play()\<close> and once with the host allowing it. Both return without an
  exception, and the two states they leave differ in the \<open>paused\<close> flag of the element at
  most: rate, volume, the bars drawn, the gradient, the photos and the request for the
  next frame are the same. When the refused frame had a speed above \<open>0.02\<close> and a paused
  element, it has called \<open>play\<close> and the element is still paused. From a paused element
  the next frame calls \<open>play\<close> again when its speed exceeds \<open>0.02\<close>, and otherwise calls
  nothing and leaves the element paused. The threshold is the Number \<open>0.02\<close> of the
  script.
\<close>

theorem play_rejection_discarded:
  assumes "runs step s"
  shows "\<exists>s1 s2. step (e\<lparr>playAllowed := False\<rparr>) s = Inr s1
        \<and> step (e\<lparr>playAllowed := True\<rparr>) s = Inr s2
        \<and> s1 = s2\<lparr>audio := (audio s2)\<lparr>paused := paused (audio s1)\<rparr>\<rparr>
        \<and> frameRequests s1 = frameRequests s + 1
        \<and> runs step s1
        \<and> (\<bar>velocity s1\<bar> > dbl 0.02 \<and> paused (audio s) \<longrightarrow>
              audioCalls s1 = audioCalls s @ [Play] \<and> paused (audio s1))
        \<and> (paused (audio s1) \<longrightarrow>
              (\<exists>s3. step e' s1 = Inr s3
                 \<and> (\<bar>velocity s3\<bar> > dbl 0.02 \<longrightarrow> audioCalls s3 = audioCalls s1 @ [Play])
                 \<and> (\<bar>velocity s3\<bar> \<le> dbl 0.02 \<longrightarrow>
                       audioCalls s3 = audioCalls s1 \<and> paused (audio s3))))"
proof -
  from runs_step [OF assms, of "e\<lparr>playAllowed := True\<rparr>"] obtain s2
    where s2: "step (e\<lparr>playAllowed := True\<rparr>) s = Inr s2"
    by metis
  from runs_step [OF assms, of "e\<lparr>playAllowed := False\<rparr>"] obtain s1
    where s1: "step (e\<lparr>playAllowed := False\<rparr>) s = Inr s1" "runs step s1"
      "velocity s1 = velocity (physics s)"
      "audio s1 = snd (audioLogic (playAllowed (e\<lparr>playAllowed := False\<rparr>))
          \<bar>velocity (physics s)\<bar> (audio s))"
      "audioCalls s1 = audioCalls s @ fst (audioLogic (playAllowed (e\<lparr>playAllowed := False\<rparr>))
          \<bar>velocity (physics s)\<bar> (audio s))"
      "frameRequests s1 = frameRequests s + 1"
    by metis
  have "s1 = s2\<lparr>audio := (audio s2)
          \<lparr>paused := (if \<bar>velocity (physics s)\<bar> > dbl 0.02 then paused (audio s) else True)\<rparr>\<rparr>"
    using step_rejected [OF assms s2] s1(1) by simp
  then have same: "s1 = s2\<lparr>audio := (audio s2)\<lparr>paused := paused (audio s1)\<rparr>\<rparr>"
    by (cases s2) auto
  have tried: "audioCalls s1 = audioCalls s @ [Play] \<and> paused (audio s1)"
    if "\<bar>velocity s1\<bar> > dbl 0.02 \<and> paused (audio s)"
    using that s1(3,4,5) by (simp add: audioLogic_calls audioLogic_paused)
  have again: "\<exists>s3. step e' s1 = Inr s3
                 \<and> (\<bar>velocity s3\<bar> > dbl 0.02 \<longrightarrow> audioCalls s3 = audioCalls s1 @ [Play])
                 \<and> (\<bar>velocity s3\<bar> \<le> dbl 0.02 \<longrightarrow> audioCalls s3 = audioCalls s1 \<and> paused (audio s3))"
    if p: "paused (audio s1)"
  proof -
    from runs_step [OF s1(2), of e'] obtain s3
      where s3: "step e' s1 = Inr s3" "velocity s3 = velocity (physics s1)"
        "audio s3 = snd (audioLogic (playAllowed e') \<bar>velocity (physics s1)\<bar> (audio s1))"
        "audioCalls s3 = audioCalls s1 @ fst (audioLogic (playAllowed e') \<bar>velocity (physics s1)\<bar> (audio s1))"
      by metis
    show ?thesis
      using s3 p by (intro exI [of _ s3]) (simp add: audioLogic_calls audioLogic_paused)
  qed
  show ?thesis
    using s1(1,2,6) s2 same tried again by blast
qed

theorem play_rejection_discarded_witness:
  "runs loop (dragTo (dbl 0.06) pressed) \<and> paused (audio (dragTo (dbl 0.06) pressed))
   \<and> (\<exists>s1 s2. loop (exampleFrame False) (dragTo (dbl 0.06) pressed) = Inr s1
         \<and> loop (exampleFrame True) (dragTo (dbl 0.06) pressed) = Inr s2
         \<and> \<bar>velocity s1\<bar> > dbl 0.02 \<and> audioCalls s1 = [Play] \<and> paused (audio s1)
         \<and> s1 = s2\<lparr>audio := (audio s2)\<lparr>paused := True\<rparr>\<rparr>
         \<and> (\<exists>s3. loop (exampleFrame True) s1 = Inr s3))"
proof -
  have r: "runs loop (dragTo (dbl 0.06) pressed)"
    using dragged_fields by (simp add: runs_def)
  have e: "(exampleFrame True)\<lparr>playAllowed := False\<rparr> = exampleFrame False"
    "(exampleFrame True)\<lparr>playAllowed := True\<rparr> = exampleFrame True"
    by (simp_all add: exampleFrame_def)
  from play_rejection_discarded [OF r, of "exampleFrame True" "exampleFrame True"] obtain s1 s2
    where s: "loop (exampleFrame False) (dragTo (dbl 0.06) pressed) = Inr s1"
        "loop (exampleFrame True) (dragTo (dbl 0.06) pressed) = Inr s2"
        "s1 = s2\<lparr>audio := (audio s2)\<lparr>paused := paused (audio s1)\<rparr>\<rparr>"
      and t: "\<bar>velocity s1\<bar> > dbl 0.02 \<and> paused (audio (dragTo (dbl 0.06) pressed)) \<longrightarrow>
              audioCalls s1 = audioCalls (dragTo (dbl 0.06) pressed) @ [Play] \<and> paused (audio s1)"
      and n: "paused (audio s1) \<longrightarrow> (\<exists>s3. loop (exampleFrame True) s1 = Inr s3
                 \<and> (\<bar>velocity s3\<bar> > dbl 0.02 \<longrightarrow> audioCalls s3 = audioCalls s1 @ [Play])
                 \<and> (\<bar>velocity s3\<bar> \<le> dbl 0.02 \<longrightarrow> audioCalls s3 = audioCalls s1 \<and> paused (audio s3)))"
    unfolding e by blast
  have v: "\<bar>velocity s1\<bar> > dbl 0.02"
    using loop_fields(1) [OF s(1)] dragged_velocity by simp
  then have c: "audioCalls s1 = [Play]" "paused (audio s1)"
    using t dragged_fields by simp_all
  then have "s1 = s2\<lparr>audio := (audio s2)\<lparr>paused := True\<rparr>\<rparr>"
    using s(3) by simp
  moreover have "\<exists>s3. loop (exampleFrame True) s1 = Inr s3"
    using n c(2) by blast
  ultimately show ?thesis
    using r dragged_fields(4) s(1,2) v c by auto
qed

section \<open>Slideshow: claims C5 and C6\<close>

lemma photoIndex_clampIndex:
  "photoIndex progress n = clampIndex \<lfloor>dbl (progress * real n)\<rfloor> 0 (int n - 1)"
  by (auto simp: photoIndex_def clampIndex_def Let_def)

text \<open>
  Ten seconds of thirty: the quotient is the Number \<open>0.3333333333333333\<close>, below a third,
  and three times it rounds to \<open>1\<close>.
\<close>

lemma third_of_three:
  "dbl (10 / 30) = 6004799503160661 / 2 ^ 54" "dbl (dbl (10 / 30) * real (3::nat)) = 1"
  "\<lfloor>dbl (10 / 30) * 3\<rfloor> = 0"
proof -
  show p: "dbl (10 / 30) = 6004799503160661 / 2 ^ 54"
    by (subst dbl_eval [of 54]) (simp_all add: roundEven_def Let_def)
  show "dbl (dbl (10 / 30) * real (3::nat)) = 1"
    unfolding p by (subst dbl_eval [of 53]) (simp_all add: roundEven_def Let_def)
  show "\<lfloor>dbl (10 / 30) * 3\<rfloor> = 0"
    unfolding p by (simp add: floor_eq_iff)
qed

text \<open>
  Claim C5. The index the synchronizer computes is \<open>floor(progress * photoCount)\<close> clamped
  into \<open>[0, photoCount - 1]\<close>, for every progress and so for every progress in \<open>[0, 1]\<close>;
  it is the index the update stores. The product is the one the script computes, the
  real product rounded to binary64: its floor is the floor of the real product or, where
  the real product is within the rounding of the next integer, one more. With no photo
  the update changes nothing. Progress \<open>0.5\<close> with four photos gives index \<open>2\<close>, progress
  \<open>1\<close> the last index, and ten seconds of thirty with three photos index \<open>1\<close>.
\<close>

theorem photoIndex_floor_clamped:
  assumes "1 \<le> n"
  shows "photoIndex progress n = clampIndex \<lfloor>dbl (progress * real n)\<rfloor> 0 (int n - 1)
    \<and> 0 \<le> photoIndex progress n \<and> photoIndex progress n \<le> int n - 1
    \<and> (\<bar>progress * real n\<bar> < 2 ^ 53 \<longrightarrow>
          photoIndex progress n = clampIndex \<lfloor>progress * real n\<rfloor> 0 (int n - 1)
        \<or> photoIndex progress n = clampIndex (\<lfloor>progress * real n\<rfloor> + 1) 0 (int n - 1))
    \<and> (n < 2 ^ 53 \<longrightarrow> photoIndex 1 n = int n - 1)
    \<and> photoIndex 0 n = 0
    \<and> (indexInRange s \<and> length (photos s) = n \<longrightarrow>
          (\<exists>s'. updatePhotos progress s = Inr s'
             \<and> int (currentPhotoIndex s') = photoIndex progress n))
    \<and> (photos s = [] \<longrightarrow> updatePhotos progress s = Inr s)
    \<and> photoIndex 0.5 4 = 2
    \<and> photoIndex (dbl (10 / 30)) 3 = 1"
proof -
  have r: "0 \<le> photoIndex progress n \<and> photoIndex progress n \<le> int n - 1"
    using photoIndex_range [of n progress] assms by simp
  have f: "photoIndex progress n = clampIndex \<lfloor>progress * real n\<rfloor> 0 (int n - 1)
        \<or> photoIndex progress n = clampIndex (\<lfloor>progress * real n\<rfloor> + 1) 0 (int n - 1)"
    if "\<bar>progress * real n\<bar> < 2 ^ 53"
  proof -
    from floor_dbl [OF that]
    have "\<lfloor>dbl (progress * real n)\<rfloor> = \<lfloor>progress * real n\<rfloor>
        \<or> \<lfloor>dbl (progress * real n)\<rfloor> = \<lfloor>progress * real n\<rfloor> + 1"
      by linarith
    then show ?thesis
      unfolding photoIndex_clampIndex by auto
  qed
  have one: "photoIndex 1 n = int n - 1" if "n < 2 ^ 53"
  proof -
    have "\<bar>int n\<bar> < 2 ^ 53" using that by simp
    from dbl_of_int [OF this] have "dbl (real n) = real n" by simp
    then show ?thesis
      using assms by (simp add: photoIndex_def Let_def)
  qed
  have zero: "photoIndex 0 n = 0"
    by (simp add: photoIndex_def Let_def)
  have u: "\<exists>s'. updatePhotos progress s = Inr s' \<and> int (currentPhotoIndex s') = photoIndex progress n"
    if "indexInRange s \<and> length (photos s) = n"
    using that r assms by (auto simp: updatePhotos_def indexInRange_def Let_def)
  have e: "updatePhotos progress s = Inr s" if "photos s = []"
    using that by (simp add: updatePhotos_def)
  have h: "photoIndex 0.5 4 = 2"
    by (simp add: photoIndex_def Let_def)
  have t: "photoIndex (dbl (10 / 30)) 3 = 1"
    unfolding photoIndex_def Let_def third_of_three(2) by simp
  show ?thesis
    using photoIndex_clampIndex r f one zero u e h t by blast
qed

theorem photoIndex_floor_clamped_witness:
  "(1::nat) \<le> 4 \<and> \<bar>0.5 * real (4::nat)\<bar> < 2 ^ 53 \<and> (4::nat) < 2 ^ 53
   \<and> indexInRange examplePage \<and> length (photos examplePage) = 4
   \<and> photoIndex 0.5 4 = 2 \<and> clampIndex \<lfloor>dbl (0.5 * real (4::nat))\<rfloor> 0 (int 4 - 1) = 2
   \<and> photoIndex 1 4 = 3
   \<and> (\<exists>s'. updatePhotos 0.5 examplePage = Inr s' \<and> int (currentPhotoIndex s') = 2)
   \<and> photos (examplePage\<lparr>photos := []\<rparr>) = []
   \<and> updatePhotos 0.5 (examplePage\<lparr>photos := []\<rparr>) = Inr (examplePage\<lparr>photos := []\<rparr>)"
proof -
  have i: "indexInRange examplePage \<and> length (photos examplePage) = 4"
    by (simp add: examplePage_def initialState_def indexInRange_def)
  from photoIndex_floor_clamped [of 4 "0.5" examplePage] i obtain s'
    where "photoIndex 0.5 4 = clampIndex \<lfloor>dbl (0.5 * real (4::nat))\<rfloor> 0 (int 4 - 1)"
      "photoIndex 0.5 4 = 2" "photoIndex 1 4 = 3"
      "updatePhotos 0.5 examplePage = Inr s'" "int (currentPhotoIndex s') = photoIndex 0.5 4"
    by auto
  moreover have "updatePhotos 0.5 (examplePage\<lparr>photos := []\<rparr>) = Inr (examplePage\<lparr>photos := []\<rparr>)"
    using photoIndex_floor_clamped [of 4 "0.5" "examplePage\<lparr>photos := []\<rparr>"] by simp
  ultimately show ?thesis
    using i by auto
qed

lemma replicate_update_same: "(replicate n x)[i := x] = replicate n x"
proof (cases "i < n")
  case True
  then have "(replicate n x)[i := replicate n x ! i] = replicate n x"
    by (intro list_update_id)
  then show ?thesis using True by simp
next
  case False
  then have "length (replicate n x) \<le> i" by simp
  then show ?thesis by (rule list_update_beyond)
qed

lemma count_one_active: "i < n \<Longrightarrow> count_list ((replicate n False)[i := True]) True = 1"
proof (induction n arbitrary: i)
  case 0
  then show ?case by simp
next
  case (Suc n)
  show ?case
  proof (cases i)
    case 0
    then show ?thesis by (simp add: count_list_0_iff)
  next
    case (Suc j)
    then show ?thesis using Suc.IH [of j] Suc.prems by simp
  qed
qed

text \<open>
  Claim C6. With at least one photo, when exactly one photo is active and it is the one
  at the stored index, an update with any progress does not throw, and after it exactly
  one photo is active, the one at the stored index, which is the computed index; when
  the computed index is the stored one the update changes nothing at all.
\<close>

theorem updatePhotos_one_active:
  assumes "photos s \<noteq> []" "oneActiveAt (currentPhotoIndex s) (photos s)"
  shows "\<exists>s'. updatePhotos progress s = Inr s'
      \<and> oneActiveAt (currentPhotoIndex s') (photos s')
      \<and> count_list (photos s') True = 1
      \<and> length (photos s') = length (photos s)
      \<and> int (currentPhotoIndex s') = photoIndex progress (length (photos s))
      \<and> (photoIndex progress (length (photos s)) = int (currentPhotoIndex s) \<longrightarrow> s' = s)"
proof -
  define n where "n = length (photos s)"
  define i where "i = currentPhotoIndex s"
  define j where "j = nat (photoIndex progress n)"
  have n: "0 < n" using assms(1) by (simp add: n_def)
  have i: "i < n" and ps: "photos s = (replicate n False)[i := True]"
    using assms(2) by (simp_all add: oneActiveAt_def n_def i_def)
  have j: "j < n" "int j = photoIndex progress n"
    using photoIndex_range [OF n, of progress] by (auto simp: j_def nat_less_iff)
  have c: "count_list (photos s) True = 1"
    unfolding ps by (rule count_one_active [OF i])
  show ?thesis
  proof (cases "photoIndex progress n = int i")
    case True
    then have "updatePhotos progress s = Inr s"
      by (simp add: updatePhotos_def Let_def n_def i_def)
    then show ?thesis
      using assms(2) c True by (simp add: n_def i_def)
  next
    case False
    define s' where "s' = s\<lparr>photos := (photos s)[i := False, j := True], currentPhotoIndex := j\<rparr>"
    have u: "updatePhotos progress s = Inr s'"
      using False n i by (simp add: updatePhotos_def Let_def n_def i_def s'_def j_def)
    have p': "photos s' = (replicate n False)[j := True]"
      by (simp add: s'_def ps replicate_update_same)
    have "oneActiveAt (currentPhotoIndex s') (photos s')"
      using j(1) by (simp add: oneActiveAt_def p') (simp add: s'_def)
    moreover have "count_list (photos s') True = 1"
      unfolding p' by (rule count_one_active [OF j(1)])
    moreover have "length (photos s') = length (photos s)"
      by (simp add: s'_def)
    moreover have "int (currentPhotoIndex s') = photoIndex progress (length (photos s))"
      using j(2) by (simp add: s'_def n_def)
    ultimately show ?thesis
      using u False by (simp add: n_def i_def)
  qed
qed

theorem updatePhotos_one_active_witness:
  "photos examplePage \<noteq> [] \<and> oneActiveAt (currentPhotoIndex examplePage) (photos examplePage)
   \<and> (\<exists>s'. updatePhotos 0.5 examplePage = Inr s'
        \<and> oneActiveAt (currentPhotoIndex s') (photos s')
        \<and> count_list (photos s') True = 1
        \<and> currentPhotoIndex s' = 2)"
proof -
  have h: "photos examplePage \<noteq> []" "oneActiveAt (currentPhotoIndex examplePage) (photos examplePage)"
    "length (photos examplePage) = 4"
    by (simp_all add: examplePage_def initialState_def oneActiveAt_def numeral_eq_Suc)
  have "photoIndex 0.5 4 = 2" by (simp add: photoIndex_def Let_def)
  then show ?thesis
    using updatePhotos_one_active [OF h(1,2), of "0.5"] h by auto
qed

section \<open>Visualizer: claim C7\<close>

lemma boundBar_bounds:
  "boundBar h b \<le> real h" "4 \<le> h \<Longrightarrow> 4 \<le> boundBar h b" "h < 4 \<Longrightarrow> boundBar h b = real h"
  by (auto simp: boundBar_def Let_def)

lemma boundBar_clamp: "boundBar h b = min (real h) (max 4 b)"
  by (auto simp: boundBar_def Let_def)

lemma drawBars_heights:
  assumes "r \<in> set (drawBars s e speed barWidth is x)"
  shows "\<exists>b. rect_h r = boundBar (canvas_height s) b"
  using assms
proof (induction "is" arbitrary: x)
  case Nil
  then show ?case by simp
next
  case (Cons i "is")
  show ?case
  proof (cases "r \<in> set (drawBars s e speed barWidth is (dbl (x + dbl (barWidth + 1))))")
    case True
    then show ?thesis by (rule Cons.IH)
  next
    case False
    then obtain b where "rect_h r = boundBar (canvas_height s) b"
      using Cons.prems by (auto simp: Let_def split: option.splits)
    then show ?thesis by blast
  qed
qed

lemma drawBars_length:
  assumes "\<And>i. i \<in> set is \<Longrightarrow> \<exists>b. rawBarHeight s e speed i = Some b"
  shows "length (drawBars s e speed barWidth is x) = length is"
  using assms
proof (induction "is" arbitrary: x)
  case Nil
  then show ?case by simp
next
  case (Cons i "is")
  from Cons.prems [of i] obtain b where "rawBarHeight s e speed i = Some b" by auto
  moreover have "length (drawBars s e speed barWidth is (dbl (x + dbl (barWidth + 1)))) = length is"
    using Cons.prems by (intro Cons.IH) simp
  ultimately show ?case by (simp add: Let_def)
qed

text \<open>
  The index into the analyser's data stays inside the array, the two roundings included:
  each is off by a factor of at most \<open>1 + 2 ^ (-53)\<close>.
\<close>

lemma sample_in_range:
  assumes "i < bufferLength" "0 < n"
  shows "nat \<lfloor>dbl (real i * dbl (real n / real bufferLength))\<rfloor> < n"
proof -
  define q where "q = dbl (real n / real bufferLength)"
  have n1: "1 \<le> real n" using assms(2) by simp
  have big: "minNormal \<le> \<bar>real n / real bufferLength\<bar>"
    using n1 minNormal_small by (simp add: bufferLength_def)
  have q0: "0 \<le> q"
    unfolding q_def by (intro dbl_nonneg) simp
  have "\<bar>q - real n / real bufferLength\<bar> \<le> \<bar>real n / real bufferLength\<bar> / 2 ^ 53"
    unfolding q_def by (rule dbl_rel_error [OF big])
  then have "\<bar>q - real n / 32\<bar> \<le> real n / 32 / 2 ^ 53"
    by (simp add: bufferLength_def)
  then have q1: "q \<le> real n / 32 + real n / 32 / 2 ^ 53"
    by linarith
  have "real i \<le> 31" using assms(1) by (simp add: bufferLength_def)
  then have "real i * q \<le> 31 * q"
    using q0 by (intro mult_right_mono) simp_all
  then have p: "real i * q \<le> 31 * (real n / 32 + real n / 32 / 2 ^ 53)"
    using q1 by simp
  have p0: "0 \<le> real i * q" using q0 by simp
  have "\<bar>dbl (real i * q) - real i * q\<bar> \<le> \<bar>real i * q\<bar> / 2 ^ 53 + minNormal"
    by (rule dbl_bound)
  then have "dbl (real i * q) \<le> real i * q + real i * q / 2 ^ 53 + minNormal"
    using p0 by linarith
  also have "\<dots> < 31 * (real n / 32 + real n / 32 / 2 ^ 53)
      + 31 * (real n / 32 + real n / 32 / 2 ^ 53) / 2 ^ 53 + 1 / 2 ^ 64"
    using p minNormal_small by (intro add_le_less_mono add_mono divide_right_mono) simp_all
  also have "\<dots> \<le> real n"
    using n1 by simp
  finally have "dbl (real i * q) < real n" .
  then have "\<lfloor>dbl (real i * q)\<rfloor> < int n"
    by (simp add: floor_less_iff)
  then show ?thesis
    unfolding q_def using assms(2) by linarith
qed

lemma rawBarHeight_defined:
  assumes "i < bufferLength" "freqData e \<noteq> [] \<or> \<not> analyser s \<or> isLocalFile s"
  shows "\<exists>b. rawBarHeight s e speed i = Some b"
proof (cases "analyser s \<and> \<not> isLocalFile s")
  case True
  then have "0 < length (freqData e)" using assms(2) by simp
  from sample_in_range [OF assms(1) this]
  have "rawBarHeight s e speed i
      = Some (if speed > dbl 0.01
          then real (unat (freqData e
            ! nat \<lfloor>dbl (real i * dbl (real (length (freqData e)) / real bufferLength))\<rfloor>)) / 2
          else pseudoWaveform (waveSeed s) ! i)"
    using True by (simp add: rawBarHeight_def Let_def)
  then show ?thesis by blast
next
  case False
  then show ?thesis by (auto simp: rawBarHeight_def Let_def)
qed

lemma visualizerBars_heights:
  assumes "r \<in> set (visualizerBars e speed s)"
  shows "rect_h r \<le> real (canvas_height s)"
    and "4 \<le> canvas_height s \<Longrightarrow> 4 \<le> rect_h r"
    and "canvas_height s < 4 \<Longrightarrow> rect_h r = real (canvas_height s)"
proof -
  from assms obtain b where b: "rect_h r = boundBar (canvas_height s) b"
    unfolding visualizerBars_def Let_def by (blast dest: drawBars_heights)
  show "rect_h r \<le> real (canvas_height s)"
    unfolding b by (rule boundBar_bounds(1))
  show "4 \<le> canvas_height s \<Longrightarrow> 4 \<le> rect_h r"
    unfolding b by (rule boundBar_bounds(2))
  show "canvas_height s < 4 \<Longrightarrow> rect_h r = real (canvas_height s)"
    unfolding b by (rule boundBar_bounds(3))
qed

lemma visualizerBars_length:
  assumes "freqData e \<noteq> [] \<or> \<not> analyser s \<or> isLocalFile s"
  shows "length (visualizerBars e speed s) = 32"
proof -
  have "length (drawBars s e speed barWidth [0..<bufferLength] 0) = length [0..<bufferLength]"
    for barWidth
    using assms by (intro drawBars_length rawBarHeight_defined) simp_all
  then show ?thesis
    by (simp add: visualizerBars_def Let_def bufferLength_def)
qed

lemma visualizerBars_first:
  assumes "rawBarHeight s e speed 0 = Some b"
  shows "visualizerBars e speed s \<noteq> []"
    and "rect_h (hd (visualizerBars e speed s)) = boundBar (canvas_height s) b"
  using assms by (simp_all add: visualizerBars_def Let_def bufferLength_def upt_conv_Cons)

lemma pressed_waveSeed: "waveSeed pressed = constantDraws 0.5"
  by (simp add: pressed_def startDrag_def setupAudio_def examplePage_def initialState_def)

lemma pseudoWaveform_first: "pseudoWaveform seed ! 0 = dbl (dbl (seed 0 * 50) + 10)"
  by (simp add: pseudoWaveform_def bufferLength_def)

text \<open>
  Claim C7, as the code has it. The lower bound \<open>4\<close> is applied first and the cap at the
  height of the canvas after it, so the cap wins: every bar a frame draws, from the
  analyser or from the static waveform, is at most as high as the canvas; it is at least
  \<open>4\<close> high when the canvas is at least \<open>4\<close> high, and exactly as high as the canvas when
  the canvas is lower than \<open>4\<close>. The frame draws all \<open>32\<close> bars unless the analyser is in
  use and reports no data at all.
\<close>

theorem bar_heights_bounded:
  assumes "indexInRange s"
  shows "\<exists>s'. loop e s = Inr s' \<and> canvas_height s' = canvas_height s
     \<and> (\<forall>r \<in> set (fills s'). rect_h r \<le> real (canvas_height s)
           \<and> (4 \<le> canvas_height s \<longrightarrow> 4 \<le> rect_h r)
           \<and> (canvas_height s < 4 \<longrightarrow> rect_h r = real (canvas_height s)))
     \<and> (freqData e \<noteq> [] \<or> \<not> analyser s \<or> isLocalFile s \<longrightarrow> length (fills s') = 32)"
proof -
  from loop_total [OF assms, of e] obtain s' where s': "loop e s = Inr s'" by blast
  note f = loop_fields [OF s']
  have h: "canvas_height (turnAndPlay e s) = canvas_height s" by simp
  have b: "rect_h r \<le> real (canvas_height s)
           \<and> (4 \<le> canvas_height s \<longrightarrow> 4 \<le> rect_h r)
           \<and> (canvas_height s < 4 \<longrightarrow> rect_h r = real (canvas_height s))"
    if "r \<in> set (fills s')" for r
    using visualizerBars_heights [of r e "\<bar>velocity (physics s)\<bar>" "turnAndPlay e s"] that
    unfolding f(11) h by blast
  have n: "length (fills s') = 32" if "freqData e \<noteq> [] \<or> \<not> analyser s \<or> isLocalFile s"
    unfolding f(11) using that by (intro visualizerBars_length) simp
  show ?thesis
    using s' f(7) b n by blast
qed

theorem bar_heights_bounded_witness:
  "indexInRange pressed \<and> canvas_height pressed = 64 \<and> freqData (exampleFrame True) \<noteq> []
   \<and> (\<exists>s'. loop (exampleFrame True) pressed = Inr s' \<and> length (fills s') = 32
        \<and> hd (fills s') \<in> set (fills s') \<and> rect_h (hd (fills s')) = 35)"
proof -
  have d: "freqData (exampleFrame True) \<noteq> []"
    by (simp add: exampleFrame_def)
  from bar_heights_bounded [OF pressed_fields(5), of "exampleFrame True"] obtain s'
    where s': "loop (exampleFrame True) pressed = Inr s'"
      and n: "freqData (exampleFrame True) \<noteq> [] \<or> \<not> analyser pressed \<or> isLocalFile pressed
          \<longrightarrow> length (fills s') = 32"
    by blast
  have len: "length (fills s') = 32" using n d by blast
  then have ne: "fills s' \<noteq> []" by auto
  have v: "velocity (physics pressed) = 0"
    using pressed_fields by (simp add: physics_velocity)
  have "rawBarHeight (turnAndPlay (exampleFrame True) pressed) (exampleFrame True) 0 0 = Some 35"
    using pressed_fields
    by (simp add: rawBarHeight_def Let_def pseudoWaveform_first pressed_waveSeed constantDraws_def
        dbl_hundredth)
  from visualizerBars_first(2) [OF this]
  have "rect_h (hd (fills s')) = 35"
    using loop_fields(11) [OF s'] v pressed_fields by (simp add: boundBar_def)
  then show ?thesis
    using pressed_fields(5,9) d s' len ne by auto
qed

text \<open>
  The claim as stated fails on a canvas lower than \<open>4\<close>: on a canvas of height \<open>2\<close> the
  idle frame draws its first bar, \<open>35\<close> high in the static waveform, with height \<open>2\<close>.
\<close>

theorem bar_below_four_counterexample:
  "canvas_height (resizeCanvas 320 2 examplePage) = 2
   \<and> visualizerBars (exampleFrame True) 0 (resizeCanvas 320 2 examplePage) \<noteq> []
   \<and> rect_h (hd (visualizerBars (exampleFrame True) 0 (resizeCanvas 320 2 examplePage))) = 2
   \<and> \<not> (4 \<le> rect_h (hd (visualizerBars (exampleFrame True) 0 (resizeCanvas 320 2 examplePage))))"
proof -
  have "rawBarHeight (resizeCanvas 320 2 examplePage) (exampleFrame True) 0 0 = Some 35"
    by (simp add: rawBarHeight_def Let_def pseudoWaveform_first constantDraws_def
        resizeCanvas_def examplePage_def initialState_def dbl_fiftieth)
  from visualizerBars_first [OF this] show ?thesis
    by (simp add: boundBar_def resizeCanvas_def)
qed

end
